theory Spec2Isabelle
  imports Complex_Main "HOL-Library.Code_Target_Numeral" "HOL-Library.Log_Nat"
begin

section \<open>The transaction generator of \<open>scripts/generate_data.py\<close>\<close>

text \<open>
  The script draws every record from Python's global random generator, reads the system
  clock, and keeps its records as dictionaries in a list that is extended in place.
  The embedding makes these three effects explicit in a \<open>world\<close> that every
  operation takes and returns:
  \<^item> \<open>draws\<close> is the sequence of raw values the random generator will deliver, one
    per library call (\<open>random\<close>, \<open>randint\<close>, \<open>choice\<close>). Each call maps its
    raw value onto its range, so every value of the range is reachable and nothing else is;
    the distribution is not modelled.
  \<^item> \<open>clock\<close> is the sequence of readings that successive calls of
    \<open>datetime.now()\<close> will return.
  \<^item> \<open>objects\<close> maps object identities to dictionaries and \<open>next_id\<close> is the
    first identity not yet in use; a dictionary display and \<open>dict.copy\<close> both
    allocate a new identity.

  A \<open>datetime\<close> is the number of microseconds since 0001-01-01 00:00:00, the first
  moment the library can represent, and a \<open>timedelta\<close> is a number of microseconds.
  A floating-point number is the rational it is exactly. A decimal literal of the source
  (\<open>0.7\<close>, \<open>0.9\<close>, \<open>0.05\<close>) is the double nearest to it, and the product and the
  sum in \<open>random.uniform\<close> are rounded to the nearest double, as the interpreter does.
  Two places keep the decimal value: \<open>round(x, 2)\<close> returns the double nearest to a
  multiple of \<open>1/100\<close>, which is written as that multiple (it is what the double prints
  as), and the product \<open>NUM_TRANSACTIONS * 0.02\<close> is taken exactly.
\<close>

subsection \<open>Errors, values and the world\<close>

datatype error = ValueError | IndexError | OverflowError

text \<open>
  The values stored in a record. \<open>PTimeText s\<close> is the text that
  \<open>strftime('%Y-%m-%d %H:%M:%S')\<close> produces for a moment in second \<open>s\<close> since
  0001-01-01 00:00:00: the format drops the microseconds and nothing else, so the text is
  represented by the whole second it denotes.
\<close>

datatype pyval = PStr string | PFloat rat | PTimeText int

type_synonym transaction = "(string \<times> pyval) list"

record world =
  draws :: "nat \<Rightarrow> nat"
  clock :: "nat \<Rightarrow> int"
  objects :: "nat \<Rightarrow> transaction"
  next_id :: nat

type_synonym 'a gen = "world \<Rightarrow> error + ('a \<times> world)"

definition ret :: "'a \<Rightarrow> 'a gen" where
  "ret x w = Inr (x, w)"

definition raise :: "error \<Rightarrow> 'a gen" where
  "raise e w = Inl e"

definition and_then :: "'a gen \<Rightarrow> ('a \<Rightarrow> 'b gen) \<Rightarrow> 'b gen" where
  "and_then m f w = (case m w of Inl e \<Rightarrow> Inl e | Inr (x, w') \<Rightarrow> f x w')"

subsection \<open>Strings: \<open>str\<close> and \<open>zfill\<close>\<close>

definition digit_char :: "nat \<Rightarrow> char" where
  "digit_char d = ''0123456789'' ! d"

fun str_nat :: "nat \<Rightarrow> string" where
  "str_nat n = (if n < 10 then [digit_char n] else str_nat (n div 10) @ [digit_char (n mod 10)])"

declare str_nat.simps [simp del]

definition str :: "int \<Rightarrow> string" where
  "str i = (if i < 0 then CHR ''-'' # str_nat (nat (- i)) else str_nat (nat i))"

text \<open>
  \<open>s.zfill(width)\<close> pads on the left with zeros up to \<open>width\<close>, after a leading
  sign if there is one, and returns \<open>s\<close> unchanged when it is already that long.
\<close>

definition zfill :: "nat \<Rightarrow> string \<Rightarrow> string" where
  "zfill width s =
     (if width \<le> length s then s
      else case s of
             [] \<Rightarrow> replicate width (CHR ''0'')
           | c # rest \<Rightarrow>
               if c = CHR ''+'' \<or> c = CHR ''-''
               then c # replicate (width - length s) (CHR ''0'') @ rest
               else replicate (width - length s) (CHR ''0'') @ s)"

subsection \<open>Floating-point numbers\<close>

text \<open>The nearest integer, a tie going to the even one.\<close>

definition round_half_even :: "rat \<Rightarrow> int" where
  "round_half_even y =
     (let f = \<lfloor>y\<rfloor>; d = y - of_int f
      in if d < 1 / 2 then f else if 1 / 2 < d then f + 1 else if even f then f else f + 1)"

text \<open>
  The binary exponent of a positive number: the \<open>e\<close> with \<open>2^e \<le> y < 2^(e+1)\<close>,
  from the bit length of the integer part of \<open>y\<close> or of \<open>1/y\<close>.
\<close>

definition floor_log2 :: "rat \<Rightarrow> int" where
  "floor_log2 y = (if 1 \<le> y then bitlen \<lfloor>y\<rfloor> - 1 else - bitlen (\<lceil>1 / y\<rceil> - 1))"

text \<open>
  The double nearest to a number, a tie going to the even significand: doubles carry 53
  significant bits, so between \<open>2^e\<close> and \<open>2^(e+1)\<close> they are the multiples of
  \<open>2^(e-52)\<close>. The exponent is not limited: no value of the script comes near the
  largest or the smallest normal double.
\<close>

definition fl :: "rat \<Rightarrow> rat" where
  "fl x = (if x = 0 then 0
           else let q = 2 powi (floor_log2 \<bar>x\<bar> - 52)
                in of_int (round_half_even (x / q)) * q)"

text \<open>An integer operand of a floating-point operation is converted to the nearest double.\<close>

definition float_of_int :: "int \<Rightarrow> rat" where
  "float_of_int n = fl (of_int n)"

subsection \<open>The random generator\<close>

definition take_draw :: "nat gen" where
  "take_draw w = Inr (draws w 0, w\<lparr>draws := (\<lambda>n. draws w (Suc n))\<rparr>)"

text \<open>\<open>random.random()\<close>: a multiple of \<open>2^-53\<close> in \<open>[0, 1)\<close>.\<close>

definition unit_float :: "nat \<Rightarrow> rat" where
  "unit_float d = of_nat (d mod 2 ^ 53) / 2 ^ 53"

definition random_random :: "rat gen" where
  "random_random = and_then take_draw (\<lambda>d. ret (unit_float d))"

text \<open>
  \<open>random.uniform(a, b)\<close> is \<open>a + (b - a) * random()\<close>. The script passes integers:
  the difference is exact, the product and the sum are floating-point operations.
\<close>

definition uniform_value :: "int \<Rightarrow> int \<Rightarrow> rat \<Rightarrow> rat" where
  "uniform_value a b r = fl (float_of_int a + fl (float_of_int (b - a) * r))"

definition uniform :: "int \<Rightarrow> int \<Rightarrow> rat gen" where
  "uniform a b = and_then random_random (\<lambda>r. ret (uniform_value a b r))"

text \<open>\<open>random.randint(a, b)\<close>: an integer of \<open>a..b\<close>; ValueError on an empty range.\<close>

definition randint :: "int \<Rightarrow> int \<Rightarrow> int gen" where
  "randint a b =
     (if b < a then raise ValueError
      else and_then take_draw (\<lambda>d. ret (a + int (d mod nat (b - a + 1)))))"

text \<open>\<open>random.choice(seq)\<close>: an element of \<open>seq\<close>; IndexError on an empty sequence.\<close>

definition choice :: "'a list \<Rightarrow> 'a gen" where
  "choice xs =
     (if xs = [] then raise IndexError
      else and_then take_draw (\<lambda>d. ret (xs ! (d mod length xs))))"

subsection \<open>Dates and times\<close>

definition US_PER_SECOND :: int where "US_PER_SECOND = 1000000"
definition US_PER_DAY :: int where "US_PER_DAY = 86400 * 1000000"

text \<open>
  The library represents the moments from 0001-01-01 00:00:00 up to 9999-12-31
  23:59:59.999999, which are 3652059 days, and the durations of at most 999999999 days in
  magnitude; it raises OverflowError beyond either range.
\<close>

definition MAX_DATETIME :: int where "MAX_DATETIME = 3652059 * US_PER_DAY"
definition MAX_DELTA_DAYS :: int where "MAX_DELTA_DAYS = 999999999"

definition datetime_ok :: "int \<Rightarrow> bool" where
  "datetime_ok t = (0 \<le> t \<and> t < MAX_DATETIME)"

definition datetime_now :: "int gen" where
  "datetime_now w = Inr (clock w 0, w\<lparr>clock := (\<lambda>n. clock w (Suc n))\<rparr>)"

definition timedelta :: "int \<Rightarrow> int \<Rightarrow> int \<Rightarrow> int \<Rightarrow> int gen" where
  "timedelta days hours minutes seconds =
     (let us = days * US_PER_DAY + ((hours * 60 + minutes) * 60 + seconds) * US_PER_SECOND
      in if us div US_PER_DAY < - MAX_DELTA_DAYS \<or> MAX_DELTA_DAYS < us div US_PER_DAY
         then raise OverflowError else ret us)"

definition datetime_sub :: "int \<Rightarrow> int \<Rightarrow> int gen" where
  "datetime_sub t delta = (if datetime_ok (t - delta) then ret (t - delta) else raise OverflowError)"

definition datetime_add :: "int \<Rightarrow> int \<Rightarrow> int gen" where
  "datetime_add t delta = (if datetime_ok (t + delta) then ret (t + delta) else raise OverflowError)"

text \<open>
  The calendar date of a day number (days since 0001-01-01, starting at 0) in the
  proleptic Gregorian calendar, by the library's own decomposition into cycles of 400,
  100, 4 and 1 years.
\<close>

definition DAYS_IN_MONTH :: "int list" where
  "DAYS_IN_MONTH = [31, 28, 31, 30, 31, 30, 31, 31, 30, 31, 30, 31]"

fun month_of :: "int list \<Rightarrow> int \<Rightarrow> int \<Rightarrow> int \<times> int" where
  "month_of [] m n = (m, n + 1)"
| "month_of (k # ks) m n = (if n < k then (m, n + 1) else month_of ks (m + 1) (n - k))"

definition ord2ymd :: "int \<Rightarrow> int \<times> int \<times> int" where
  "ord2ymd n0 =
     (let n400 = n0 div 146097; n1 = n0 mod 146097;
          n100 = n1 div 36524; n2 = n1 mod 36524;
          n4 = n2 div 1461; n3 = n2 mod 1461;
          n1y = n3 div 365; n = n3 mod 365;
          year = n400 * 400 + 1 + n100 * 100 + n4 * 4 + n1y
      in if n1y = 4 \<or> n100 = 4 then (year - 1, 12, 31)
         else let leap = (n1y = 3 \<and> (n4 \<noteq> 24 \<or> n100 = 3));
                  lens = DAYS_IN_MONTH[1 := (if leap then 29 else 28)];
                  (month, day) = month_of lens 1 n
              in (year, month, day))"

text \<open>
  \<open>strftime('%Y%m%d')\<close>: the year on four digits, the month and the day on two. (The
  library documents the year as padded with zeros; some platforms do not pad a year below
  1000. Nothing below depends on the text of the date.)
\<close>

definition strftime_Ymd :: "int \<Rightarrow> string" where
  "strftime_Ymd t =
     (let (y, m, d) = ord2ymd (t div US_PER_DAY)
      in zfill 4 (str y) @ zfill 2 (str m) @ zfill 2 (str d))"

text \<open>\<open>strftime('%Y-%m-%d %H:%M:%S')\<close>, as the whole second it denotes.\<close>

definition strftime_YmdHMS :: "int \<Rightarrow> pyval" where
  "strftime_YmdHMS t = PTimeText (t div US_PER_SECOND)"

subsection \<open>Configuration\<close>

definition NUM_TRANSACTIONS :: nat where
  "NUM_TRANSACTIONS = 100000"

definition ACCOUNT_IDS :: "string list" where
  "ACCOUNT_IDS = map (\<lambda>i. ''ACC'' @ zfill 3 (str i)) [1..500]"

definition CURRENCIES :: "string list" where
  "CURRENCIES = [''USD'', ''EUR'', ''GBP'', ''JPY'', ''CNY'']"

definition TRANSACTION_TYPES :: "string list" where
  "TRANSACTION_TYPES = [''DEBIT'', ''CREDIT'', ''TRANSFER'', ''FEE'', ''DIVIDEND'', ''INTEREST'']"

definition CATEGORIES :: "string list" where
  "CATEGORIES = [''SALARY'', ''PURCHASE'', ''TRANSFER'', ''INVESTMENT'', ''FEE'', ''DIVIDEND'',
                 ''INTEREST'', ''REFUND'', ''PAYMENT'', ''WITHDRAWAL'']"

definition STATUSES :: "string list" where
  "STATUSES = [''COMPLETED'', ''PENDING'', ''FAILED'', ''REVERSED'']"

definition DESCRIPTIONS :: "string list" where
  "DESCRIPTIONS =
     [''Regular monthly payment'', ''Online purchase'', ''ATM withdrawal'', ''Wire transfer'',
      ''Direct deposit'', ''Card payment'', ''Investment transaction'', ''Fee charge'',
      ''Interest payment'', ''Dividend payment'']"

subsection \<open>Identifier, timestamp and amount\<close>

definition generate_transaction_id :: "int \<Rightarrow> string gen" where
  "generate_transaction_id index =
     and_then datetime_now (\<lambda>now.
     ret (''TXN'' @ strftime_Ymd now @ zfill 8 (str index)))"

definition generate_timestamp :: "int \<Rightarrow> int \<Rightarrow> pyval gen" where
  "generate_timestamp base_date days_back =
     and_then (randint 0 days_back) (\<lambda>days.
     and_then (randint 0 23) (\<lambda>hours.
     and_then (randint 0 59) (\<lambda>minutes.
     and_then (randint 0 59) (\<lambda>seconds.
     and_then (timedelta days hours minutes seconds) (\<lambda>delta.
     and_then (datetime_sub base_date delta) (\<lambda>t.
     ret (strftime_YmdHMS t)))))))"

text \<open>
  \<open>round(x, ndigits)\<close>: the multiple of \<open>10^-ndigits\<close> nearest to the exact value of
  \<open>x\<close>, a tie going to the even one.
\<close>

definition py_round :: "rat \<Rightarrow> nat \<Rightarrow> rat" where
  "py_round x ndigits = of_int (round_half_even (x * 10 ^ ndigits)) / 10 ^ ndigits"

definition generate_amount :: "rat gen" where
  "generate_amount =
     and_then random_random (\<lambda>rand.
     if rand < fl (7 / 10) then and_then (uniform 10 1000) (\<lambda>x. ret (py_round x 2))
     else if rand < fl (9 / 10) then and_then (uniform 1000 10000) (\<lambda>x. ret (py_round x 2))
     else and_then (uniform 10000 100000) (\<lambda>x. ret (py_round x 2)))"

definition should_create_invalid_record :: "bool gen" where
  "should_create_invalid_record = and_then random_random (\<lambda>r. ret (r < fl (5 / 100)))"

subsection \<open>Records\<close>

text \<open>
  A dictionary display creates a new object; \<open>d.copy()\<close> creates a new object with the
  entries of \<open>d\<close>. Both return the identity of the new object.
\<close>

definition new_dict :: "transaction \<Rightarrow> nat gen" where
  "new_dict d w =
     Inr (next_id w, w\<lparr>objects := (objects w)(next_id w := d), next_id := Suc (next_id w)\<rparr>)"

definition dict_copy :: "nat \<Rightarrow> nat gen" where
  "dict_copy a w = new_dict (objects w a) w"

text \<open>The five fault kinds that \<open>create_invalid_transaction\<close> chooses from.\<close>

definition INVALID_TYPES :: "string list" where
  "INVALID_TYPES = [''missing_id'', ''negative_amount'', ''future_date'',
                    ''invalid_currency'', ''missing_account'']"

definition create_invalid_transaction :: "int \<Rightarrow> int \<Rightarrow> nat gen" where
  "create_invalid_transaction index base_date =
     and_then (choice INVALID_TYPES) (\<lambda>invalid_type.
     if invalid_type = ''missing_id'' then
      and_then (choice ACCOUNT_IDS) (\<lambda>account_id.
      and_then (generate_timestamp base_date 90) (\<lambda>timestamp.
      and_then generate_amount (\<lambda>amount.
      and_then (choice CURRENCIES) (\<lambda>currency.
      and_then (choice TRANSACTION_TYPES) (\<lambda>ttype.
      and_then (choice CATEGORIES) (\<lambda>category.
      and_then (choice DESCRIPTIONS) (\<lambda>description.
      and_then (choice STATUSES) (\<lambda>status.
      new_dict
        [(''transaction_id'', PStr ''''),
         (''account_id'', PStr account_id),
         (''timestamp'', timestamp),
         (''amount'', PFloat amount),
         (''currency'', PStr currency),
         (''type'', PStr ttype),
         (''category'', PStr category),
         (''description'', PStr description),
         (''status'', PStr status)]))))))))
     else if invalid_type = ''negative_amount'' then
      and_then (generate_transaction_id index) (\<lambda>transaction_id.
      and_then (choice ACCOUNT_IDS) (\<lambda>account_id.
      and_then (generate_timestamp base_date 90) (\<lambda>timestamp.
      and_then generate_amount (\<lambda>amount.
      and_then (choice CURRENCIES) (\<lambda>currency.
      and_then (choice TRANSACTION_TYPES) (\<lambda>ttype.
      and_then (choice CATEGORIES) (\<lambda>category.
      and_then (choice DESCRIPTIONS) (\<lambda>description.
      and_then (choice STATUSES) (\<lambda>status.
      new_dict
        [(''transaction_id'', PStr transaction_id),
         (''account_id'', PStr account_id),
         (''timestamp'', timestamp),
         (''amount'', PFloat (- amount)),
         (''currency'', PStr currency),
         (''type'', PStr ttype),
         (''category'', PStr category),
         (''description'', PStr description),
         (''status'', PStr status)])))))))))
     else if invalid_type = ''future_date'' then
      and_then (randint 1 30) (\<lambda>days.
      and_then (timedelta days 0 0 0) (\<lambda>delta.
      and_then (datetime_add base_date delta) (\<lambda>future_date.
      and_then (generate_transaction_id index) (\<lambda>transaction_id.
      and_then (choice ACCOUNT_IDS) (\<lambda>account_id.
      and_then generate_amount (\<lambda>amount.
      and_then (choice CURRENCIES) (\<lambda>currency.
      and_then (choice TRANSACTION_TYPES) (\<lambda>ttype.
      and_then (choice CATEGORIES) (\<lambda>category.
      and_then (choice DESCRIPTIONS) (\<lambda>description.
      and_then (choice STATUSES) (\<lambda>status.
      new_dict
        [(''transaction_id'', PStr transaction_id),
         (''account_id'', PStr account_id),
         (''timestamp'', strftime_YmdHMS future_date),
         (''amount'', PFloat amount),
         (''currency'', PStr currency),
         (''type'', PStr ttype),
         (''category'', PStr category),
         (''description'', PStr description),
         (''status'', PStr status)])))))))))))
     else if invalid_type = ''invalid_currency'' then
      and_then (generate_transaction_id index) (\<lambda>transaction_id.
      and_then (choice ACCOUNT_IDS) (\<lambda>account_id.
      and_then (generate_timestamp base_date 90) (\<lambda>timestamp.
      and_then generate_amount (\<lambda>amount.
      and_then (choice TRANSACTION_TYPES) (\<lambda>ttype.
      and_then (choice CATEGORIES) (\<lambda>category.
      and_then (choice DESCRIPTIONS) (\<lambda>description.
      and_then (choice STATUSES) (\<lambda>status.
      new_dict
        [(''transaction_id'', PStr transaction_id),
         (''account_id'', PStr account_id),
         (''timestamp'', timestamp),
         (''amount'', PFloat amount),
         (''currency'', PStr ''XXX''),
         (''type'', PStr ttype),
         (''category'', PStr category),
         (''description'', PStr description),
         (''status'', PStr status)]))))))))
     else
      and_then (generate_transaction_id index) (\<lambda>transaction_id.
      and_then (generate_timestamp base_date 90) (\<lambda>timestamp.
      and_then generate_amount (\<lambda>amount.
      and_then (choice CURRENCIES) (\<lambda>currency.
      and_then (choice TRANSACTION_TYPES) (\<lambda>ttype.
      and_then (choice CATEGORIES) (\<lambda>category.
      and_then (choice DESCRIPTIONS) (\<lambda>description.
      and_then (choice STATUSES) (\<lambda>status.
      new_dict
        [(''transaction_id'', PStr transaction_id),
         (''account_id'', PStr ''''),
         (''timestamp'', timestamp),
         (''amount'', PFloat amount),
         (''currency'', PStr currency),
         (''type'', PStr ttype),
         (''category'', PStr category),
         (''description'', PStr description),
         (''status'', PStr status)])))))))))"

definition create_valid_transaction :: "int \<Rightarrow> int \<Rightarrow> nat gen" where
  "create_valid_transaction index base_date =
      and_then (generate_transaction_id index) (\<lambda>transaction_id.
      and_then (choice ACCOUNT_IDS) (\<lambda>account_id.
      and_then (generate_timestamp base_date 90) (\<lambda>timestamp.
      and_then generate_amount (\<lambda>amount.
      and_then (choice CURRENCIES) (\<lambda>currency.
      and_then (choice TRANSACTION_TYPES) (\<lambda>ttype.
      and_then (choice CATEGORIES) (\<lambda>category.
      and_then (choice DESCRIPTIONS) (\<lambda>description.
      and_then (choice STATUSES) (\<lambda>status.
      new_dict
        [(''transaction_id'', PStr transaction_id),
         (''account_id'', PStr account_id),
         (''timestamp'', timestamp),
         (''amount'', PFloat amount),
         (''currency'', PStr currency),
         (''type'', PStr ttype),
         (''category'', PStr category),
         (''description'', PStr description),
         (''status'', PStr status)])))))))))"

subsection \<open>The dataset\<close>

text \<open>
  The first loop of \<open>generate_transactions\<close>, over the indices still to do;
  \<open>transactions\<close> is the list of object identities built so far.
\<close>

fun generate_records :: "int \<Rightarrow> int list \<Rightarrow> nat list \<Rightarrow> nat list gen" where
  "generate_records base_date [] transactions = ret transactions"
| "generate_records base_date (i # rest) transactions =
     and_then should_create_invalid_record (\<lambda>invalid.
     and_then (if invalid then create_invalid_transaction i base_date
               else create_valid_transaction i base_date) (\<lambda>transaction.
     generate_records base_date rest (transactions @ [transaction])))"

text \<open>The second loop: \<open>k\<close> more rounds of choosing a record of the list and appending a copy.\<close>

fun add_duplicates :: "nat \<Rightarrow> nat list \<Rightarrow> nat list gen" where
  "add_duplicates 0 transactions = ret transactions"
| "add_duplicates (Suc k) transactions =
     and_then (choice transactions) (\<lambda>chosen.
     and_then (dict_copy chosen) (\<lambda>duplicate.
     add_duplicates k (transactions @ [duplicate])))"

text \<open>\<open>int(x)\<close> truncates towards zero.\<close>

definition py_int :: "rat \<Rightarrow> int" where
  "py_int x = (if 0 \<le> x then \<lfloor>x\<rfloor> else \<lceil>x\<rceil>)"

text \<open>
  \<open>generate_transactions\<close> up to the point where the list is complete, for a record
  count \<open>n\<close>; the script runs it with \<open>NUM_TRANSACTIONS\<close>. Printing and the
  writing of the file are left out. The result is the list \<open>transactions\<close>. The
  product \<open>n * 0.02\<close> is taken exactly; for the record count of the script the
  product of the doubles has the same integer part (\<open>num_duplicates_double\<close> below).
\<close>

definition generate_transactions_for :: "nat \<Rightarrow> nat list gen" where
  "generate_transactions_for n =
     and_then datetime_now (\<lambda>base_date.
     and_then (generate_records base_date [1..int n] []) (\<lambda>transactions.
     add_duplicates (nat (py_int (of_nat n * (2 / 100)))) transactions))"

definition generate_transactions :: "nat list gen" where
  "generate_transactions = generate_transactions_for NUM_TRANSACTIONS"

text \<open>The column names under which the script writes the records.\<close>

definition fieldnames :: "string list" where
  "fieldnames = [''transaction_id'', ''account_id'', ''timestamp'', ''amount'',
                 ''currency'', ''type'', ''category'', ''description'', ''status'']"

subsection \<open>What the specification asks of a record\<close>

definition str_field :: "transaction \<Rightarrow> string \<Rightarrow> string option" where
  "str_field d k = (case map_of d k of Some (PStr s) \<Rightarrow> Some s | _ \<Rightarrow> None)"

definition float_field :: "transaction \<Rightarrow> string \<Rightarrow> rat option" where
  "float_field d k = (case map_of d k of Some (PFloat x) \<Rightarrow> Some x | _ \<Rightarrow> None)"

definition time_field :: "transaction \<Rightarrow> string \<Rightarrow> int option" where
  "time_field d k = (case map_of d k of Some (PTimeText s) \<Rightarrow> Some s | _ \<Rightarrow> None)"

text \<open>
  All nine fields are present, in the order of the columns, and each holds a value of
  its kind: a number for the amount, a time text for the timestamp, a string elsewhere.
\<close>

definition all_fields_present :: "transaction \<Rightarrow> bool" where
  "all_fields_present d =
     (map fst d = fieldnames \<and>
      time_field d ''timestamp'' \<noteq> None \<and> float_field d ''amount'' \<noteq> None \<and>
      list_all (\<lambda>k. str_field d k \<noteq> None)
        [''transaction_id'', ''account_id'', ''currency'', ''type'', ''category'',
         ''description'', ''status''])"

text \<open>The five invariants of a valid record.\<close>

definition transaction_id_ok :: "transaction \<Rightarrow> bool" where
  "transaction_id_ok d = (case str_field d ''transaction_id'' of Some s \<Rightarrow> s \<noteq> [] | None \<Rightarrow> False)"

definition account_id_ok :: "transaction \<Rightarrow> bool" where
  "account_id_ok d = (case str_field d ''account_id'' of Some s \<Rightarrow> s \<noteq> [] | None \<Rightarrow> False)"

definition timestamp_ok :: "int \<Rightarrow> transaction \<Rightarrow> bool" where
  "timestamp_ok base_date d =
     (case time_field d ''timestamp'' of Some s \<Rightarrow> s * US_PER_SECOND \<le> base_date | None \<Rightarrow> False)"

definition amount_ok :: "transaction \<Rightarrow> bool" where
  "amount_ok d = (case float_field d ''amount'' of Some x \<Rightarrow> 0 < x | None \<Rightarrow> False)"

definition currency_ok :: "transaction \<Rightarrow> bool" where
  "currency_ok d = (case str_field d ''currency'' of Some c \<Rightarrow> c \<in> set CURRENCIES | None \<Rightarrow> False)"

text \<open>A field holds a member of a closed enumeration.\<close>

definition field_in :: "transaction \<Rightarrow> string \<Rightarrow> string list \<Rightarrow> bool" where
  "field_in d k xs = (case str_field d k of Some s \<Rightarrow> s \<in> set xs | None \<Rightarrow> False)"

definition amount_magnitude_ok :: "transaction \<Rightarrow> bool" where
  "amount_magnitude_ok d =
     (case float_field d ''amount'' of Some x \<Rightarrow> 10 \<le> \<bar>x\<bar> \<and> \<bar>x\<bar> \<le> 100000 | None \<Rightarrow> False)"

text \<open>The valid record of the specification, and a record filled from the enumerations.\<close>

definition valid_record :: "int \<Rightarrow> transaction \<Rightarrow> bool" where
  "valid_record base_date d =
     (all_fields_present d \<and> amount_ok d \<and> currency_ok d \<and> transaction_id_ok d \<and>
      account_id_ok d \<and> timestamp_ok base_date d)"

definition enumerated_fields :: "transaction \<Rightarrow> bool" where
  "enumerated_fields d =
     (field_in d ''type'' TRANSACTION_TYPES \<and> field_in d ''category'' CATEGORIES \<and>
      field_in d ''description'' DESCRIPTIONS \<and> field_in d ''status'' STATUSES)"

text \<open>
  A record with the single fault \<open>kind\<close>: all nine fields are there, and each of the
  five invariants holds exactly when it is not the one that \<open>kind\<close> names.
  \<open>violations\<close> counts the invariants that fail.
\<close>

definition single_fault :: "string \<Rightarrow> int \<Rightarrow> transaction \<Rightarrow> bool" where
  "single_fault kind base_date d =
     (all_fields_present d \<and>
      (transaction_id_ok d \<longleftrightarrow> kind \<noteq> ''missing_id'') \<and>
      (amount_ok d \<longleftrightarrow> kind \<noteq> ''negative_amount'') \<and>
      (timestamp_ok base_date d \<longleftrightarrow> kind \<noteq> ''future_date'') \<and>
      (currency_ok d \<longleftrightarrow> kind \<noteq> ''invalid_currency'') \<and>
      (account_id_ok d \<longleftrightarrow> kind \<noteq> ''missing_account''))"

definition violations :: "int \<Rightarrow> transaction \<Rightarrow> nat" where
  "violations base_date d =
     length (filter Not [transaction_id_ok d, account_id_ok d, timestamp_ok base_date d,
                         amount_ok d, currency_ok d])"

text \<open>
  Base moments from which no timestamp of the generator leaves the range of the library:
  \<open>lookback_ok\<close> for a window of \<open>days_back\<close> days and up to 23:59:59 more into the
  past, \<open>lookahead_ok\<close> for the 30 days of the future-date fault.
\<close>

definition lookback_ok :: "int \<Rightarrow> int \<Rightarrow> bool" where
  "lookback_ok base_date days_back =
     (days_back \<le> MAX_DELTA_DAYS \<and>
      days_back * US_PER_DAY + 86399 * US_PER_SECOND \<le> base_date \<and> base_date < MAX_DATETIME)"

definition lookahead_ok :: "int \<Rightarrow> bool" where
  "lookahead_ok base_date = (0 \<le> base_date \<and> base_date + 30 * US_PER_DAY < MAX_DATETIME)"

text \<open>
  The record factory of the specification: one Bernoulli trial, then a faulted or a
  valid record. It is the body of the first loop of \<open>generate_transactions\<close>.
\<close>

definition record_factory :: "int \<Rightarrow> int \<Rightarrow> nat gen" where
  "record_factory i base_date =
     and_then should_create_invalid_record (\<lambda>invalid.
     if invalid then create_invalid_transaction i base_date
     else create_valid_transaction i base_date)"

subsection \<open>Notions for the proofs\<close>

text \<open>
  The record that a dictionary display of the script builds, and the part that all six
  displays share: the draws of type, category, description and status, then the display.
  \<open>allocated w w' a\<close> says that between \<open>w\<close> and \<open>w'\<close> exactly one object was
  created, \<open>a\<close>, and no other object changed.
\<close>

definition transaction_display ::
  "string \<Rightarrow> string \<Rightarrow> pyval \<Rightarrow> rat \<Rightarrow> string \<Rightarrow> string \<Rightarrow> string \<Rightarrow> string \<Rightarrow> string \<Rightarrow> transaction" where
  "transaction_display tid acc ts amt cur ty cat desc st =
     [(''transaction_id'', PStr tid),
      (''account_id'', PStr acc),
      (''timestamp'', ts),
      (''amount'', PFloat amt),
      (''currency'', PStr cur),
      (''type'', PStr ty),
      (''category'', PStr cat),
      (''description'', PStr desc),
      (''status'', PStr st)]"

definition finish_record :: "string \<Rightarrow> string \<Rightarrow> pyval \<Rightarrow> rat \<Rightarrow> string \<Rightarrow> nat gen" where
  "finish_record tid acc ts amt cur =
     and_then (choice TRANSACTION_TYPES) (\<lambda>ttype.
     and_then (choice CATEGORIES) (\<lambda>category.
     and_then (choice DESCRIPTIONS) (\<lambda>description.
     and_then (choice STATUSES) (\<lambda>status.
     new_dict (transaction_display tid acc ts amt cur ttype category description status)))))"

definition allocated :: "world \<Rightarrow> world \<Rightarrow> nat \<Rightarrow> bool" where
  "allocated w w' a =
     (a = next_id w \<and> next_id w' = Suc (next_id w) \<and>
      (\<forall>b. b \<noteq> a \<longrightarrow> objects w' b = objects w b))"

text \<open>Two worlds with the same objects.\<close>

definition same_heap :: "world \<Rightarrow> world \<Rightarrow> bool" where
  "same_heap w w' = (objects w' = objects w \<and> next_id w' = next_id w)"

text \<open>
  The identities of a list are live in a world: pairwise distinct, and all allocated.
\<close>

definition live :: "world \<Rightarrow> nat list \<Rightarrow> bool" where
  "live w ts = (distinct ts \<and> (\<forall>a \<in> set ts. a < next_id w))"

text \<open>The number that a string of decimal digits denotes, leading zeros allowed.\<close>

definition digits_value :: "string \<Rightarrow> nat" where
  "digits_value s = foldl (\<lambda>a c. 10 * a + (of_char c - 48)) 0 s"

text \<open>
  A world is steady when every raw draw still to come has the same value, and an operation
  keeps worlds steady when it leaves a steady world steady.
\<close>

definition steady :: "nat \<Rightarrow> world \<Rightarrow> bool" where
  "steady K w = (\<forall>n. draws w n = K)"

definition keeps_steady :: "nat \<Rightarrow> 'a gen \<Rightarrow> bool" where
  "keeps_steady K m = (\<forall>w x w'. steady K w \<and> m w = Inr (x, w') \<longrightarrow> steady K w')"

text \<open>What a run returns, without the world it leaves.\<close>

definition outcome :: "error + ('a \<times> world) \<Rightarrow> error + 'a" where
  "outcome r = (case r of Inl e \<Rightarrow> Inl e | Inr (x, w) \<Rightarrow> Inr x)"

subsection \<open>Worlds for concrete runs\<close>

text \<open>
  A world for concrete runs: the clock reads 2026-11-04 12:00:00, and the raw draws are
  the multiples of 5566755282872655, so that the values of \<open>random()\<close> are
  0.618..., 0.236..., 0.854..., 0.472... and so on.
\<close>

definition example_world :: world where
  "example_world =
     \<lparr> draws = (\<lambda>n. 5566755282872655 * (n + 1)),
       clock = (\<lambda>n. 739923 * US_PER_DAY + 43200 * US_PER_SECOND),
       objects = (\<lambda>a. []),
       next_id = 0 \<rparr>"

text \<open>
  A world whose first raw draw is 0 and whose later raw draws are all \<open>2^53 - 1\<close>, the
  largest value of \<open>random()\<close>.
\<close>

definition amount_edge_world :: world where
  "amount_edge_world = example_world\<lparr>draws := (\<lambda>n. if n = 0 then 0 else 2 ^ 53 - 1)\<rparr>"

text \<open>
  A world whose first raw draw gives \<open>random()\<close> the value of the double \<open>0.7\<close>, and
  whose later raw draws give it one half.
\<close>

definition threshold_world :: world where
  "threshold_world =
     example_world\<lparr>draws := (\<lambda>n. if n = 0 then 6305039478318694 else 2 ^ 52)\<rparr>"

text \<open>
  The raw draws that make \<open>generate_timestamp\<close> draw the offset of \<open>d\<close> days,
  \<open>h\<close> hours, \<open>m\<close> minutes and \<open>s\<close> seconds.
\<close>

definition offset_draws :: "int \<Rightarrow> int \<Rightarrow> int \<Rightarrow> int \<Rightarrow> nat \<Rightarrow> nat" where
  "offset_draws d h m s n = nat (if n = 0 then d else if n = 1 then h else if n = 2 then m else s)"

text \<open>A world all of whose raw draws are 42.\<close>

definition steady_world :: world where
  "steady_world = example_world\<lparr>draws := (\<lambda>n. 42)\<rparr>"

text \<open>A world with three objects, which differ in their amount.\<close>

definition copy_world :: world where
  "copy_world =
     example_world\<lparr>objects := (\<lambda>a. [(''amount'', PFloat (of_nat a))]), next_id := 3\<rparr>"

text \<open>The world after \<open>k\<close> more raw draws.\<close>

definition skip_draws :: "nat \<Rightarrow> world \<Rightarrow> world" where
  "skip_draws k w = w\<lparr>draws := (\<lambda>n. draws w (n + k))\<rparr>"

text \<open>A world whose first raw draw selects the future-date fault.\<close>

definition future_world :: world where
  "future_world = example_world\<lparr>draws := (\<lambda>n. 5566755282872655 * (n + 1) + 2)\<rparr>"

text \<open>A world whose first raw draw selects the negative-amount fault.\<close>

definition negative_world :: world where
  "negative_world = example_world\<lparr>draws := (\<lambda>n. 5566755282872655 * (n + 1) + 1)\<rparr>"

section \<open>Verification\<close>

subsection \<open>Decimal strings and running the monad\<close>

lemma digit_char_cases: "d < 10 \<Longrightarrow> d \<in> {0, 1, 2, 3, 4, 5, 6, 7, 8, 9::nat}"
  by auto

lemma digit_char_value: "d < 10 \<Longrightarrow> of_char (digit_char d) = 48 + d"
  using digit_char_cases [of d] by (auto simp: digit_char_def)

lemma digit_char_not_sign: "d < 10 \<Longrightarrow> digit_char d \<noteq> CHR ''+'' \<and> digit_char d \<noteq> CHR ''-''"
  using digit_char_cases [of d] by (auto simp: digit_char_def)

lemma digits_value_snoc: "digits_value (s @ [c]) = 10 * digits_value s + (of_char c - 48)"
  by (simp add: digits_value_def)

lemma digits_value_str_nat: "digits_value (str_nat n) = n"
proof (induction n rule: str_nat.induct)
  case (1 n)
  show ?case
  proof (cases "n < 10")
    case True
    then show ?thesis
      by (subst str_nat.simps) (simp add: digits_value_def digit_char_value)
  next
    case False
    with 1 show ?thesis
      by (subst str_nat.simps) (simp add: digits_value_snoc digit_char_value)
  qed
qed

lemma digits_value_zeros: "digits_value (replicate k (CHR ''0'') @ s) = digits_value s"
proof -
  have "digits_value (replicate k (CHR ''0'')) = 0"
  proof (induction k)
    case 0
    show ?case by (simp add: digits_value_def)
  next
    case (Suc k)
    have "replicate (Suc k) (CHR ''0'') = replicate k (CHR ''0'') @ [CHR ''0'']"
      by (simp add: replicate_append_same)
    with Suc show ?case by (simp only: digits_value_snoc) simp
  qed
  then show ?thesis by (simp add: digits_value_def)
qed

lemma str_nat_not_Nil: "str_nat n \<noteq> []"
  by (subst str_nat.simps) simp

lemma hd_str_nat_not_sign: "hd (str_nat n) \<noteq> CHR ''+'' \<and> hd (str_nat n) \<noteq> CHR ''-''"
proof (induction n rule: str_nat.induct)
  case (1 n)
  show ?case
  proof (cases "n < 10")
    case True
    then show ?thesis
      by (subst (1 2) str_nat.simps) (simp add: digit_char_not_sign)
  next
    case False
    with 1 show ?thesis
      by (subst (1 2) str_nat.simps) (simp add: str_nat_not_Nil)
  qed
qed

lemma zfill_str_nat: "zfill k (str_nat n) = replicate (k - length (str_nat n)) (CHR ''0'') @ str_nat n"
  using hd_str_nat_not_sign [of n] str_nat_not_Nil [of n]
  by (cases "str_nat n") (auto simp: zfill_def)

lemma digits_value_zfill_str: "0 \<le> i \<Longrightarrow> digits_value (zfill k (str i)) = nat i"
  by (simp add: str_def zfill_str_nat digits_value_zeros digits_value_str_nat)

lemma zfill_str_inj: "0 \<le> i \<Longrightarrow> 0 \<le> j \<Longrightarrow> zfill k (str i) = zfill k (str j) \<Longrightarrow> i = j"
  using digits_value_zfill_str [of i k] digits_value_zfill_str [of j k] by simp


lemma and_then_Inr:
  "(and_then m f w = Inr r) = (\<exists>x w1. m w = Inr (x, w1) \<and> f x w1 = Inr r)"
  by (auto simp: and_then_def split: sum.splits)

lemma generate_transaction_id_run:
  "generate_transaction_id i w =
     Inr (''TXN'' @ strftime_Ymd (clock w 0) @ zfill 8 (str i), w\<lparr>clock := (\<lambda>n. clock w (Suc n))\<rparr>)"
  by (simp add: generate_transaction_id_def and_then_def datetime_now_def ret_def)

lemma example_date: "strftime_Ymd (clock example_world 0) = ''20261104''"
  by code_simp

lemma example_padded: "zfill 8 (str 1) = ''00000001''" "zfill 8 (str 2) = ''00000002''"
  by code_simp+

subsection \<open>Identifiers\<close>

text \<open>
  Claim C7. \<open>generate_transaction_id\<close> always returns, and what it returns is the
  prefix \<open>TXN\<close>, the date of the clock reading as \<open>strftime('%Y%m%d')\<close> gives it,
  and the index padded with zeros to eight characters: it depends on the index and the
  current date only, draws nothing from the random generator and touches no object. For
  two distinct positive indices and clock readings of the same date, the two identifiers
  differ and neither is empty.
\<close>

theorem generate_transaction_id_pure_unique:
  "(\<exists>w'. generate_transaction_id i w =
            Inr (''TXN'' @ strftime_Ymd (clock w 0) @ zfill 8 (str i), w') \<and>
         draws w' = draws w \<and> objects w' = objects w \<and> next_id w' = next_id w) \<and>
   (0 < i \<and> 0 < j \<and> i \<noteq> j \<and> strftime_Ymd (clock w 0) = strftime_Ymd (clock v 0) \<longrightarrow>
      (\<exists>a b w' v'. generate_transaction_id i w = Inr (a, w') \<and>
                    generate_transaction_id j v = Inr (b, v') \<and>
                    a \<noteq> b \<and> a \<noteq> [] \<and> b \<noteq> []))"
proof (intro conjI impI)
  show "\<exists>w'. generate_transaction_id i w =
            Inr (''TXN'' @ strftime_Ymd (clock w 0) @ zfill 8 (str i), w') \<and>
         draws w' = draws w \<and> objects w' = objects w \<and> next_id w' = next_id w"
    by (simp add: generate_transaction_id_run)
next
  assume h: "0 < i \<and> 0 < j \<and> i \<noteq> j \<and> strftime_Ymd (clock w 0) = strftime_Ymd (clock v 0)"
  then have "zfill 8 (str i) \<noteq> zfill 8 (str j)"
    using zfill_str_inj [of i j 8] by auto
  with h show "\<exists>a b w' v'. generate_transaction_id i w = Inr (a, w') \<and>
                    generate_transaction_id j v = Inr (b, v') \<and>
                    a \<noteq> b \<and> a \<noteq> [] \<and> b \<noteq> []"
    by (simp add: generate_transaction_id_run)
qed

theorem generate_transaction_id_witness:
  "(0::int) < 1 \<and> (0::int) < 2 \<and> (1::int) \<noteq> 2 \<and>
   (\<exists>w' v'. generate_transaction_id 1 example_world = Inr (''TXN2026110400000001'', w') \<and>
            generate_transaction_id 2 example_world = Inr (''TXN2026110400000002'', v'))"
  using generate_transaction_id_pure_unique [of 1 example_world 2 example_world]
  by (simp add: generate_transaction_id_run example_date example_padded)

subsection \<open>The library calls, run\<close>

lemma random_random_run:
  "random_random w = Inr (unit_float (draws w 0), w\<lparr>draws := (\<lambda>n. draws w (Suc n))\<rparr>)"
  by (simp add: random_random_def and_then_def take_draw_def ret_def)

lemma uniform_run:
  "uniform a b w =
     Inr (uniform_value a b (unit_float (draws w 0)), w\<lparr>draws := (\<lambda>n. draws w (Suc n))\<rparr>)"
  by (simp add: uniform_def and_then_def random_random_run ret_def)

lemma choice_run:
  "xs \<noteq> [] \<Longrightarrow>
   choice xs w = Inr (xs ! (draws w 0 mod length xs), w\<lparr>draws := (\<lambda>n. draws w (Suc n))\<rparr>)"
  by (simp add: choice_def and_then_def take_draw_def ret_def)

lemma randint_run:
  "a \<le> b \<Longrightarrow>
   randint a b w =
     Inr (a + int (draws w 0 mod nat (b - a + 1)), w\<lparr>draws := (\<lambda>n. draws w (Suc n))\<rparr>)"
  by (simp add: randint_def and_then_def take_draw_def ret_def)

lemma unit_draw: "0 \<le> unit_float d \<and> unit_float d < 1"
proof -
  have "d mod 2 ^ 53 < (2 ^ 53 :: nat)" by simp
  then have "(of_nat (d mod 2 ^ 53) :: rat) < of_nat (2 ^ 53)" by (simp only: of_nat_less_iff)
  then show ?thesis by (simp add: unit_float_def)
qed

lemma randint_post:
  assumes "randint a b w = Inr (x, w')"
  shows "a \<le> x \<and> x \<le> b \<and> x = a + int (draws w 0 mod nat (b - a + 1)) \<and>
         w' = w\<lparr>draws := (\<lambda>n. draws w (Suc n))\<rparr>"
proof -
  from assms have ab: "a \<le> b" by (auto simp: randint_def raise_def split: if_splits)
  with assms have x: "x = a + int (draws w 0 mod nat (b - a + 1))"
    and w': "w' = w\<lparr>draws := (\<lambda>n. draws w (Suc n))\<rparr>"
    by (auto simp: randint_run)
  have "draws w 0 mod nat (b - a + 1) < nat (b - a + 1)" using ab by simp
  then have "int (draws w 0 mod nat (b - a + 1)) < int (nat (b - a + 1))"
    by (simp only: of_nat_less_iff)
  then have "int (draws w 0 mod nat (b - a + 1)) < b - a + 1" using ab by simp
  then have "a \<le> x" and "x \<le> b" by (simp_all add: x)
  with x w' show ?thesis by blast
qed

lemma choice_post:
  assumes "choice xs w = Inr (x, w')"
  shows "xs \<noteq> [] \<and> x = xs ! (draws w 0 mod length xs) \<and> x \<in> set xs \<and>
         w' = w\<lparr>draws := (\<lambda>n. draws w (Suc n))\<rparr>"
proof -
  from assms have ne: "xs \<noteq> []" by (auto simp: choice_def raise_def split: if_splits)
  with assms have x: "x = xs ! (draws w 0 mod length xs)"
    and w': "w' = w\<lparr>draws := (\<lambda>n. draws w (Suc n))\<rparr>"
    by (auto simp: choice_run)
  from ne have "x \<in> set xs" by (simp add: x)
  with ne x w' show ?thesis by blast
qed

lemma choice_in_set: "choice xs w = Inr (x, w') \<Longrightarrow> x \<in> set xs"
  using choice_post [of xs w x w'] by simp

lemma randint_range: "randint a b w = Inr (x, w') \<Longrightarrow> a \<le> x \<and> x \<le> b"
  using randint_post [of a b w x w'] by simp

lemma timedelta_post:
  "timedelta d h m s w = Inr (us, w') \<Longrightarrow>
   us = d * US_PER_DAY + ((h * 60 + m) * 60 + s) * US_PER_SECOND \<and> w' = w"
  by (auto simp: timedelta_def Let_def raise_def ret_def split: if_splits)

lemma datetime_sub_post:
  "datetime_sub t delta w = Inr (x, w') \<Longrightarrow> x = t - delta \<and> datetime_ok (t - delta) \<and> w' = w"
  by (auto simp: datetime_sub_def raise_def ret_def split: if_splits)

lemma datetime_add_post:
  "datetime_add t delta w = Inr (x, w') \<Longrightarrow> x = t + delta \<and> datetime_ok (t + delta) \<and> w' = w"
  by (auto simp: datetime_add_def raise_def ret_def split: if_splits)

subsection \<open>Rounding\<close>


lemma round_half_even_ge: "of_int A \<le> y \<Longrightarrow> A \<le> round_half_even y"
proof -
  assume "of_int A \<le> y"
  then have "A \<le> \<lfloor>y\<rfloor>" by (simp add: le_floor_iff)
  then show ?thesis by (simp add: round_half_even_def Let_def)
qed

lemma round_half_even_le: "y \<le> of_int B \<Longrightarrow> round_half_even y \<le> B"
proof -
  assume h: "y \<le> of_int B"
  then have fb: "\<lfloor>y\<rfloor> \<le> B" by (simp add: floor_le_iff)
  show ?thesis
  proof (cases "\<lfloor>y\<rfloor> = B")
    case True
    then have "of_int B \<le> y" using of_int_floor_le [of y] by simp
    with h have "y = of_int B" by simp
    then show ?thesis by (simp add: round_half_even_def Let_def)
  next
    case False
    with fb have "\<lfloor>y\<rfloor> + 1 \<le> B" by simp
    with fb show ?thesis by (simp add: round_half_even_def Let_def)
  qed
qed

text \<open>\<open>floor_log2\<close> finds the binary exponent.\<close>

lemma floor_log2_ge1:
  assumes "1 \<le> y"
  shows "2 powi floor_log2 y \<le> y \<and> y < 2 powi (floor_log2 y + 1)"
proof -
  from assms have p: "0 < \<lfloor>y\<rfloor>" by simp
  define b where "b = bitlen \<lfloor>y\<rfloor>"
  from p have b1: "1 \<le> b" using bitlen_eq_zero_iff [of "\<lfloor>y\<rfloor>"] bitlen_nonneg [of "\<lfloor>y\<rfloor>"]
    by (simp add: b_def)
  from bitlen_bounds [OF p] have lo: "2 ^ nat (b - 1) \<le> \<lfloor>y\<rfloor>" and hi: "\<lfloor>y\<rfloor> < 2 ^ nat b"
    by (simp_all add: b_def)
  have e: "floor_log2 y = b - 1" using assms by (simp add: floor_log2_def b_def)
  from lo have "(of_int (2 ^ nat (b - 1)) :: rat) \<le> y" by (simp only: le_floor_iff)
  then have "(2 ^ nat (b - 1) :: rat) \<le> y" by simp
  then have l: "2 powi (b - 1) \<le> y" using b1 by (simp add: power_int_def)
  from hi have "\<lfloor>y\<rfloor> + 1 \<le> 2 ^ nat b" by simp
  then have "(of_int (\<lfloor>y\<rfloor> + 1) :: rat) \<le> of_int (2 ^ nat b)" by (simp only: of_int_le_iff)
  moreover have "y < of_int (\<lfloor>y\<rfloor> + 1)" by linarith
  ultimately have "y < (2 ^ nat b :: rat)" by simp
  then have u: "y < 2 powi b" using b1 by (simp add: power_int_def)
  from l u show ?thesis by (simp add: e)
qed

lemma floor_log2_lt1:
  assumes "0 < y" and "y < 1"
  shows "2 powi floor_log2 y \<le> y \<and> y < 2 powi (floor_log2 y + 1)"
proof -
  define z where "z = 1 / y"
  from assms have z1: "1 < z" by (simp add: z_def)
  define c where "c = \<lceil>z\<rceil> - 1"
  from z1 have p: "0 < c" unfolding c_def by linarith
  define k where "k = bitlen c"
  from p have k1: "1 \<le> k" using bitlen_eq_zero_iff [of c] bitlen_nonneg [of c]
    by (simp add: k_def)
  from bitlen_bounds [OF p] have lo: "2 ^ nat (k - 1) \<le> c" and hi: "c < 2 ^ nat k"
    by (simp_all add: k_def)
  have e: "floor_log2 y = - k" using assms by (simp add: floor_log2_def k_def c_def z_def)
  from hi have "\<lceil>z\<rceil> \<le> 2 ^ nat k" by (simp add: c_def)
  then have "z \<le> of_int (2 ^ nat k)" by (simp only: ceiling_le_iff)
  then have zk: "z \<le> 2 ^ nat k" by simp
  from lo have "(of_int (2 ^ nat (k - 1)) :: rat) \<le> of_int c" by (simp only: of_int_le_iff)
  then have "(2 ^ nat (k - 1) :: rat) \<le> of_int c" by (simp only: of_int_power of_int_numeral)
  moreover have "of_int c < z" unfolding c_def by linarith
  ultimately have kz: "(2 ^ nat (k - 1) :: rat) < z" by (rule le_less_trans)
  have y: "y = 1 / z" using assms by (simp add: z_def)
  from zk z1 have "1 / (2 ^ nat k :: rat) \<le> 1 / z" by (intro divide_left_mono) simp_all
  then have l: "2 powi (- k) \<le> y" using k1 by (simp add: power_int_def y field_simps)
  from kz z1 have "1 / z < 1 / (2 ^ nat (k - 1) :: rat)" by (intro divide_strict_left_mono) simp_all
  moreover have "2 powi (- k + 1) = 1 / (2 ^ nat (k - 1) :: rat)"
    using k1 by (simp add: power_int_def field_simps)
  ultimately have u: "y < 2 powi (- k + 1)" by (simp add: y)
  from l u show ?thesis by (simp add: e)
qed

lemma floor_log2_bounds:
  "0 < y \<Longrightarrow> 2 powi floor_log2 y \<le> y \<and> y < 2 powi (floor_log2 y + 1)"
  using floor_log2_ge1 [of y] floor_log2_lt1 [of y] by (cases "1 \<le> y") simp_all

text \<open>
  Below \<open>2^53\<close> the doubles are spaced by one over a whole number, so every integer is
  a double there and rounding to a double does not cross an integer.
\<close>

lemma fl_spacing:
  assumes "0 < x" and "x < 2 ^ 53"
  shows "\<exists>N::int. 0 < N \<and> 2 powi (floor_log2 x - 52) = 1 / (of_int N :: rat)"
proof -
  define e where "e = floor_log2 x"
  from floor_log2_bounds [OF assms(1)] have "2 powi e \<le> x" by (simp add: e_def)
  with assms(2) have lt: "(2::rat) powi e < 2 powi 53" by simp
  have "e < 53"
  proof (rule ccontr)
    assume "\<not> e < 53"
    then have "(2::rat) powi 53 \<le> 2 powi e" by (intro power_int_increasing) simp_all
    with lt show False by simp
  qed
  then have "2 powi (e - 52) = 1 / (of_int (2 ^ nat (52 - e)) :: rat)"
    by (cases "e = 52") (simp_all add: power_int_def field_simps)
  moreover have "(0::int) < 2 ^ nat (52 - e)" by simp
  ultimately have "0 < (2 ^ nat (52 - e) :: int) \<and>
      2 powi (floor_log2 x - 52) = 1 / (of_int (2 ^ nat (52 - e)) :: rat)"
    by (simp add: e_def)
  then show ?thesis by (rule exI)
qed

lemma fl_ge_int:
  assumes "0 < x" and "x < 2 ^ 53" and "of_int A \<le> x"
  shows "of_int A \<le> fl x"
proof -
  from fl_spacing [OF assms(1,2)] obtain N :: int where
    N: "0 < N" and q: "2 powi (floor_log2 x - 52) = 1 / (of_int N :: rat)"
    by blast
  from N have Np: "(0::rat) < of_int N" by simp
  from assms(3) Np have "of_int A * (of_int N :: rat) \<le> x * of_int N"
    by (intro mult_right_mono) simp_all
  then have "of_int (A * N) \<le> x * of_int N" by simp
  then have "A * N \<le> round_half_even (x * of_int N)" by (rule round_half_even_ge)
  then have "(of_int (A * N) :: rat) \<le> of_int (round_half_even (x * of_int N))"
    by (simp only: of_int_le_iff)
  with Np have "of_int A \<le> of_int (round_half_even (x * of_int N)) / (of_int N :: rat)"
    by (simp add: field_simps)
  with assms(1) show ?thesis by (simp add: fl_def Let_def q)
qed

lemma fl_le_int:
  assumes "0 < x" and "x < 2 ^ 53" and "x \<le> of_int B"
  shows "fl x \<le> of_int B"
proof -
  from fl_spacing [OF assms(1,2)] obtain N :: int where
    N: "0 < N" and q: "2 powi (floor_log2 x - 52) = 1 / (of_int N :: rat)"
    by blast
  from N have Np: "(0::rat) < of_int N" by simp
  from assms(3) Np have "x * of_int N \<le> of_int B * (of_int N :: rat)"
    by (intro mult_right_mono) simp_all
  then have "x * of_int N \<le> of_int (B * N)" by simp
  then have "round_half_even (x * of_int N) \<le> B * N" by (rule round_half_even_le)
  then have "(of_int (round_half_even (x * of_int N)) :: rat) \<le> of_int (B * N)"
    by (simp only: of_int_le_iff)
  with Np have "of_int (round_half_even (x * of_int N)) / (of_int N :: rat) \<le> of_int B"
    by (simp add: field_simps)
  with assms(1) show ?thesis by (simp add: fl_def Let_def q)
qed

lemma float_of_int_exact:
  assumes "0 \<le> n" and "n < 2 ^ 53"
  shows "float_of_int n = of_int n"
proof (cases "n = 0")
  case True
  then show ?thesis by (simp add: float_of_int_def fl_def)
next
  case False
  with assms have p: "(0::rat) < of_int n" and b: "(of_int n :: rat) < 2 ^ 53"
    by (simp_all add: of_int_less_numeral_power_cancel_iff)
  from fl_ge_int [OF p b, of n] fl_le_int [OF p b, of n] show ?thesis
    by (simp add: float_of_int_def)
qed

lemma uniform_value_bounds:
  assumes "0 < a" and "a \<le> b" and "b < 2 ^ 53" and "0 \<le> r" and "r < 1"
  shows "of_int a \<le> uniform_value a b r \<and> uniform_value a b r \<le> of_int b"
proof -
  from assms have fa: "float_of_int a = of_int a" and fd: "float_of_int (b - a) = of_int (b - a)"
    by (simp_all add: float_of_int_exact)
  define x where "x = (of_int (b - a) :: rat) * r"
  define p where "p = fl x"
  from assms have d: "(0::rat) \<le> of_int (b - a)" by simp
  from d assms(4) have x0: "0 \<le> x" unfolding x_def by (rule mult_nonneg_nonneg)
  from d assms(5) have "of_int (b - a) * r \<le> (of_int (b - a) :: rat) * 1"
    by (intro mult_left_mono) simp_all
  then have xd: "x \<le> of_int (b - a)" by (simp add: x_def)
  from assms have "b - a < 2 ^ 53" by simp
  then have "(of_int (b - a) :: rat) < 2 ^ 53" by (simp only: of_int_less_numeral_power_cancel_iff)
  with xd have xb: "x < 2 ^ 53" by simp
  have p0: "0 \<le> p \<and> p \<le> of_int (b - a)"
  proof (cases "x = 0")
    case True
    with d show ?thesis by (simp add: p_def fl_def)
  next
    case False
    with x0 have xp: "0 < x" by simp
    from fl_ge_int [OF xp xb, of 0] xp fl_le_int [OF xp xb xd] show ?thesis by (simp add: p_def)
  qed
  define y where "y = (of_int a :: rat) + p"
  from assms(1) p0 have yp: "0 < y" and ya: "of_int a \<le> y" by (simp_all add: y_def)
  from p0 have yb: "y \<le> of_int b" by (simp add: y_def)
  from assms(3) have "(of_int b :: rat) < 2 ^ 53" by (simp only: of_int_less_numeral_power_cancel_iff)
  with yb have y53: "y < 2 ^ 53" by simp
  have "uniform_value a b r = fl y" by (simp add: uniform_value_def fa fd y_def p_def x_def)
  with fl_ge_int [OF yp y53 ya] fl_le_int [OF yp y53 yb] show ?thesis by simp
qed

text \<open>The decimal literals of the script, as doubles.\<close>

lemma literal_0_7: "fl (7 / 10) = 6305039478318694 / 2 ^ 53"
  by code_simp

lemma literal_0_9: "fl (9 / 10) = 8106479329266893 / 2 ^ 53"
  by code_simp

lemma literal_0_05: "fl (5 / 100) = 3602879701896397 / 2 ^ 56"
  by code_simp

subsection \<open>Amounts\<close>

lemma py_round2_bounds:
  assumes "of_int A / 100 \<le> x" and "x \<le> of_int B / 100"
  shows "of_int A / 100 \<le> py_round x 2 \<and> py_round x 2 \<le> of_int B / 100"
proof -
  from assms have "of_int A \<le> x * 100" and "x * 100 \<le> of_int B" by (simp_all add: field_simps)
  then have "A \<le> round_half_even (x * 100)" and "round_half_even (x * 100) \<le> B"
    by (simp_all add: round_half_even_ge round_half_even_le)
  then have "(of_int A :: rat) \<le> of_int (round_half_even (x * 100))"
    and "(of_int (round_half_even (x * 100)) :: rat) \<le> of_int B"
    by (simp_all only: of_int_le_iff)
  then show ?thesis by (simp add: py_round_def divide_right_mono)
qed

lemma py_round2_cents: "\<exists>k::int. py_round x 2 = of_int k / 100"
  by (auto simp: py_round_def)

lemma tier_bounds:
  assumes "0 \<le> r" and "r < 1" and "0 < A" and "A \<le> B" and "B < 2 ^ 53"
  shows "of_int A \<le> py_round (uniform_value A B r) 2 \<and>
         py_round (uniform_value A B r) 2 \<le> of_int B"
  using uniform_value_bounds [OF assms(3) assms(4) assms(5) assms(1) assms(2)]
    py_round2_bounds [of "A * 100" "uniform_value A B r" "B * 100"]
  by simp

lemma generate_amount_run:
  "generate_amount w =
     Inr (py_round
            (if unit_float (draws w 0) < fl (7 / 10)
             then uniform_value 10 1000 (unit_float (draws w (Suc 0)))
             else if unit_float (draws w 0) < fl (9 / 10)
             then uniform_value 1000 10000 (unit_float (draws w (Suc 0)))
             else uniform_value 10000 100000 (unit_float (draws w (Suc 0)))) 2,
          w\<lparr>draws := (\<lambda>n. draws w (Suc (Suc n)))\<rparr>)"
  by (simp add: generate_amount_def and_then_def random_random_run uniform_run ret_def)

lemma generate_amount_post:
  assumes "generate_amount w = Inr (a, w')"
  shows "w' = w\<lparr>draws := (\<lambda>n. draws w (Suc (Suc n)))\<rparr>"
    and "\<exists>k::int. a = of_int k / 100"
    and "unit_float (draws w 0) < fl (7 / 10) \<Longrightarrow> 10 \<le> a \<and> a \<le> 1000"
    and "fl (7 / 10) \<le> unit_float (draws w 0) \<Longrightarrow> unit_float (draws w 0) < fl (9 / 10) \<Longrightarrow>
         1000 \<le> a \<and> a \<le> 10000"
    and "fl (9 / 10) \<le> unit_float (draws w 0) \<Longrightarrow> 10000 \<le> a \<and> a \<le> 100000"
    and "10 \<le> a \<and> a \<le> 100000"
proof -
  define u where "u = unit_float (draws w 0)"
  define v where "v = unit_float (draws w (Suc 0))"
  define lo where "lo = fl (7 / 10)"
  define hi where "hi = fl (9 / 10)"
  have v: "0 \<le> v" "v < 1" using unit_draw [of "draws w (Suc 0)"] by (simp_all add: v_def)
  have t1: "10 \<le> py_round (uniform_value 10 1000 v) 2 \<and>
            py_round (uniform_value 10 1000 v) 2 \<le> 1000"
    using tier_bounds [OF v, of 10 1000] by simp
  have t2: "1000 \<le> py_round (uniform_value 1000 10000 v) 2 \<and>
            py_round (uniform_value 1000 10000 v) 2 \<le> 10000"
    using tier_bounds [OF v, of 1000 10000] by simp
  have t3: "10000 \<le> py_round (uniform_value 10000 100000 v) 2 \<and>
            py_round (uniform_value 10000 100000 v) 2 \<le> 100000"
    using tier_bounds [OF v, of 10000 100000] by simp
  from assms have a: "a = py_round
            (if u < lo then uniform_value 10 1000 v
             else if u < hi then uniform_value 1000 10000 v
             else uniform_value 10000 100000 v) 2"
    and w': "w' = w\<lparr>draws := (\<lambda>n. draws w (Suc (Suc n)))\<rparr>"
    by (auto simp: generate_amount_run u_def v_def lo_def hi_def split: if_splits)
  have order: "lo \<le> hi" by (simp add: lo_def hi_def literal_0_7 literal_0_9)
  show "w' = w\<lparr>draws := (\<lambda>n. draws w (Suc (Suc n)))\<rparr>" by (rule w')
  show "\<exists>k::int. a = of_int k / 100" unfolding a by (rule py_round2_cents)
  show "unit_float (draws w 0) < fl (7 / 10) \<Longrightarrow> 10 \<le> a \<and> a \<le> 1000"
    using t1 unfolding u_def [symmetric] lo_def [symmetric] by (simp add: a)
  show "fl (7 / 10) \<le> unit_float (draws w 0) \<Longrightarrow> unit_float (draws w 0) < fl (9 / 10) \<Longrightarrow>
         1000 \<le> a \<and> a \<le> 10000"
    using t2 unfolding u_def [symmetric] lo_def [symmetric] hi_def [symmetric] by (simp add: a)
  show "fl (9 / 10) \<le> unit_float (draws w 0) \<Longrightarrow> 10000 \<le> a \<and> a \<le> 100000"
    using t3 order unfolding u_def [symmetric] lo_def [symmetric] hi_def [symmetric]
    by (simp add: a)
  show "10 \<le> a \<and> a \<le> 100000"
    using t1 t2 t3 by (simp add: a)
qed

lemma generate_amount_total: "\<exists>a w'. generate_amount w = Inr (a, w')"
  by (simp add: generate_amount_run)

lemma edge_unit_float: "unit_float 0 = 0"
  by (simp add: unit_float_def)

lemma edge_last_unit_float: "unit_float 9007199254740991 = 9007199254740991 / 2 ^ 53"
  by (simp add: unit_float_def)

lemma edge_round: "py_round (uniform_value 10 1000 (unit_float 9007199254740991)) 2 = 1000"
  unfolding edge_last_unit_float by code_simp

lemma threshold_unit_float:
  "unit_float 6305039478318694 = 6305039478318694 / 2 ^ 53" "unit_float 4503599627370496 = 1 / 2"
  by (simp_all add: unit_float_def)

lemma threshold_round: "py_round (uniform_value 1000 10000 (unit_float 4503599627370496)) 2 = 5500"
  unfolding threshold_unit_float by code_simp

lemma example_tier_draws:
  "random_random example_world =
     Inr (5566755282872655 / 2 ^ 53, skip_draws 1 example_world)"
  "random_random (skip_draws 2 example_world) =
     Inr (7693066593876973 / 2 ^ 53, skip_draws 3 example_world)"
  "random_random (skip_draws 7 example_world) =
     Inr (8505245244017272 / 2 ^ 53, skip_draws 8 example_world)"
  by (simp_all add: random_random_run example_world_def unit_float_def skip_draws_def)

text \<open>
  Claim C4, with closed ranges and the thresholds the script compares with. The literals
  \<open>0.7\<close> and \<open>0.9\<close> are the doubles \<open>6305039478318694 / 2^53\<close>, just below
  seven tenths, and \<open>8106479329266893 / 2^53\<close>, just above nine tenths.
  \<open>generate_amount\<close> always returns. With \<open>u\<close> the value of its first draw, which
  lies in \<open>[0, 1)\<close>, the amount is a whole number of hundredths and lies between 10 and
  1000 when \<open>u\<close> is below the first threshold, between 1000 and 10000 when \<open>u\<close> is
  from the first threshold up and below the second, and between 10000 and 100000 when
  \<open>u\<close> is from the second threshold up, both ends included in each case.
\<close>

theorem generate_amount_tiers:
  "fl (7 / 10) = 6305039478318694 / 2 ^ 53 \<and> fl (9 / 10) = 8106479329266893 / 2 ^ 53 \<and>
   (\<forall>u w1. random_random w = Inr (u, w1) \<longrightarrow>
     0 \<le> u \<and> u < 1 \<and>
     (\<exists>a w' k. generate_amount w = Inr (a, w') \<and> a = rat_of_int k / 100 \<and>
        (u < fl (7 / 10) \<longrightarrow> 10 \<le> a \<and> a \<le> 1000) \<and>
        (fl (7 / 10) \<le> u \<and> u < fl (9 / 10) \<longrightarrow> 1000 \<le> a \<and> a \<le> 10000) \<and>
        (fl (9 / 10) \<le> u \<longrightarrow> 10000 \<le> a \<and> a \<le> 100000)))"
proof (intro conjI allI impI)
  show "fl (7 / 10) = 6305039478318694 / 2 ^ 53" by (rule literal_0_7)
  show "fl (9 / 10) = 8106479329266893 / 2 ^ 53" by (rule literal_0_9)
next
  fix u w1
  assume "random_random w = Inr (u, w1)"
  then have u: "u = unit_float (draws w 0)" by (simp add: random_random_run)
  show "0 \<le> u" "u < 1" using unit_draw [of "draws w 0"] by (simp_all add: u)
  obtain a w' where g: "generate_amount w = Inr (a, w')" using generate_amount_total by blast
  from generate_amount_post(2) [OF g] obtain k :: int where k: "a = of_int k / 100" by blast
  have "u < fl (7 / 10) \<longrightarrow> 10 \<le> a \<and> a \<le> 1000"
    using generate_amount_post(3) [OF g] unfolding u by blast
  moreover have "fl (7 / 10) \<le> u \<and> u < fl (9 / 10) \<longrightarrow> 1000 \<le> a \<and> a \<le> 10000"
    using generate_amount_post(4) [OF g] unfolding u by blast
  moreover have "fl (9 / 10) \<le> u \<longrightarrow> 10000 \<le> a \<and> a \<le> 100000"
    using generate_amount_post(5) [OF g] unfolding u by blast
  ultimately show "\<exists>a w' k. generate_amount w = Inr (a, w') \<and> a = rat_of_int k / 100 \<and>
        (u < fl (7 / 10) \<longrightarrow> 10 \<le> a \<and> a \<le> 1000) \<and>
        (fl (7 / 10) \<le> u \<and> u < fl (9 / 10) \<longrightarrow> 1000 \<le> a \<and> a \<le> 10000) \<and>
        (fl (9 / 10) \<le> u \<longrightarrow> 10000 \<le> a \<and> a \<le> 100000)"
    using g k by blast
qed

theorem generate_amount_tiers_witness:
  "(outcome (random_random example_world) = Inr (5566755282872655 / 2 ^ 53) \<and>
    (5566755282872655 / 2 ^ 53 :: rat) < fl (7 / 10) \<and>
    (\<exists>a w'. generate_amount example_world = Inr (a, w') \<and> 10 \<le> a \<and> a \<le> 1000)) \<and>
   (outcome (random_random (skip_draws 2 example_world)) = Inr (7693066593876973 / 2 ^ 53) \<and>
    fl (7 / 10) \<le> 7693066593876973 / 2 ^ 53 \<and> (7693066593876973 / 2 ^ 53 :: rat) < fl (9 / 10) \<and>
    (\<exists>a w'. generate_amount (skip_draws 2 example_world) = Inr (a, w') \<and>
       1000 \<le> a \<and> a \<le> 10000)) \<and>
   (outcome (random_random (skip_draws 7 example_world)) = Inr (8505245244017272 / 2 ^ 53) \<and>
    fl (9 / 10) \<le> 8505245244017272 / 2 ^ 53 \<and>
    (\<exists>a w'. generate_amount (skip_draws 7 example_world) = Inr (a, w') \<and>
       10000 \<le> a \<and> a \<le> 100000))"
proof -
  have s: "(5566755282872655 / 2 ^ 53 :: rat) < fl (7 / 10)"
    "fl (7 / 10) \<le> 7693066593876973 / 2 ^ 53" "(7693066593876973 / 2 ^ 53 :: rat) < fl (9 / 10)"
    "fl (9 / 10) \<le> 8505245244017272 / 2 ^ 53"
    by (simp_all add: literal_0_7 literal_0_9)
  note t1 = generate_amount_tiers [of example_world, THEN conjunct2, THEN conjunct2]
  note t2 = generate_amount_tiers [of "skip_draws 2 example_world", THEN conjunct2, THEN conjunct2]
  note t3 = generate_amount_tiers [of "skip_draws 7 example_world", THEN conjunct2, THEN conjunct2]
  from t1 example_tier_draws(1) s(1)
  have 1: "\<exists>a w'. generate_amount example_world = Inr (a, w') \<and> 10 \<le> a \<and> a \<le> 1000"
    by blast
  from t2 example_tier_draws(2) s(2,3)
  have 2: "\<exists>a w'. generate_amount (skip_draws 2 example_world) = Inr (a, w') \<and>
       1000 \<le> a \<and> a \<le> 10000"
    by blast
  from t3 example_tier_draws(3) s(4)
  have 3: "\<exists>a w'. generate_amount (skip_draws 7 example_world) = Inr (a, w') \<and>
       10000 \<le> a \<and> a \<le> 100000"
    by blast
  from 1 2 3 s show ?thesis by (simp add: outcome_def example_tier_draws)
qed

text \<open>
  Claim C4 as stated fails in two ways. It asks for an amount below 1000 in the lowest
  tier, and the upper end of a tier is reached: rounding to two places takes every value
  from 999.995 on to 1000.00, so with a first draw of 0, which selects the lowest tier, and
  a second draw of \<open>1 - 2^-53\<close>, the amount is 1000, which is not below 1000. And it
  places every draw below seven tenths in the lowest tier, while the script compares with
  the double \<open>0.7\<close>, which lies below seven tenths and is itself a value of
  \<open>random()\<close>: with that first draw and a second draw of one half the amount is 5500,
  of the middle tier.
\<close>

theorem generate_amount_half_open_counterexample:
  "(outcome (random_random amount_edge_world) = Inr 0 \<and> (0 :: rat) < 7 / 10 \<and>
    outcome (generate_amount amount_edge_world) = Inr 1000 \<and> \<not> (1000 < (1000 :: rat))) \<and>
   (outcome (random_random threshold_world) = Inr (6305039478318694 / 2 ^ 53) \<and>
    (6305039478318694 / 2 ^ 53 :: rat) < 7 / 10 \<and>
    outcome (generate_amount threshold_world) = Inr 5500 \<and> \<not> (5500 < (1000 :: rat)))"
  by (simp add: outcome_def random_random_run generate_amount_run amount_edge_world_def
      threshold_world_def example_world_def edge_unit_float edge_round
      threshold_unit_float(1) threshold_round literal_0_7 literal_0_9)

subsection \<open>Timestamps\<close>

lemma truncated_second_le: "(t div US_PER_SECOND) * US_PER_SECOND \<le> t"
  by (simp add: US_PER_SECOND_def)

lemma offset_nonneg:
  "0 \<le> d \<Longrightarrow> 0 \<le> h \<Longrightarrow> 0 \<le> m \<Longrightarrow> 0 \<le> s \<Longrightarrow>
   0 \<le> d * US_PER_DAY + ((h * 60 + m) * 60 + s) * US_PER_SECOND"
  by (simp add: US_PER_DAY_def US_PER_SECOND_def)

lemma generate_timestamp_unpack:
  assumes "generate_timestamp base_date days_back w = Inr (ts, w')"
  shows "\<exists>d w1 h w2 m w3 s w4 us w5 t w6.
    randint 0 days_back w = Inr (d, w1) \<and> randint 0 23 w1 = Inr (h, w2) \<and>
    randint 0 59 w2 = Inr (m, w3) \<and> randint 0 59 w3 = Inr (s, w4) \<and>
    timedelta d h m s w4 = Inr (us, w5) \<and> datetime_sub base_date us w5 = Inr (t, w6) \<and>
    ret (strftime_YmdHMS t) w6 = Inr (ts, w')"
  using assms unfolding generate_timestamp_def and_then_Inr by blast


lemma generate_timestamp_post:
  assumes "generate_timestamp base_date days_back w = Inr (ts, w')"
  shows "\<exists>d h m s. 0 \<le> d \<and> d \<le> days_back \<and> 0 \<le> h \<and> h \<le> 23 \<and> 0 \<le> m \<and> m \<le> 59 \<and>
           0 \<le> s \<and> s \<le> 59 \<and>
           ts = strftime_YmdHMS
                  (base_date - (d * US_PER_DAY + ((h * 60 + m) * 60 + s) * US_PER_SECOND))"
    and "w' = w\<lparr>draws := (\<lambda>n. draws w (Suc (Suc (Suc (Suc n)))))\<rparr>"
proof -
  from generate_timestamp_unpack [OF assms] obtain d w1 h w2 m w3 s w4 us w5 t w6 where
    d: "randint 0 days_back w = Inr (d, w1)" and h: "randint 0 23 w1 = Inr (h, w2)" and
    m: "randint 0 59 w2 = Inr (m, w3)" and s: "randint 0 59 w3 = Inr (s, w4)" and
    us: "timedelta d h m s w4 = Inr (us, w5)" and t: "datetime_sub base_date us w5 = Inr (t, w6)" and
    r: "ret (strftime_YmdHMS t) w6 = Inr (ts, w')"
    by blast
  note facts = randint_post [OF d] randint_post [OF h] randint_post [OF m] randint_post [OF s]
    timedelta_post [OF us] datetime_sub_post [OF t]
  from r have ts: "ts = strftime_YmdHMS t" and w6: "w' = w6" by (simp_all add: ret_def)
  from facts have "0 \<le> d \<and> d \<le> days_back \<and> 0 \<le> h \<and> h \<le> 23 \<and> 0 \<le> m \<and> m \<le> 59 \<and>
           0 \<le> s \<and> s \<le> 59 \<and>
           ts = strftime_YmdHMS
                  (base_date - (d * US_PER_DAY + ((h * 60 + m) * 60 + s) * US_PER_SECOND))"
    by (simp add: ts)
  then show "\<exists>d h m s. 0 \<le> d \<and> d \<le> days_back \<and> 0 \<le> h \<and> h \<le> 23 \<and> 0 \<le> m \<and> m \<le> 59 \<and>
           0 \<le> s \<and> s \<le> 59 \<and>
           ts = strftime_YmdHMS
                  (base_date - (d * US_PER_DAY + ((h * 60 + m) * 60 + s) * US_PER_SECOND))"
    by blast
  from facts show "w' = w\<lparr>draws := (\<lambda>n. draws w (Suc (Suc (Suc (Suc n)))))\<rparr>"
    by (simp add: w6)
qed


lemma timedelta_run:
  assumes "0 \<le> d" and "d \<le> MAX_DELTA_DAYS" and "0 \<le> h" and "h \<le> 23" and "0 \<le> m" and "m \<le> 59"
    and "0 \<le> s" and "s \<le> 59"
  shows "timedelta d h m s w = Inr (d * US_PER_DAY + ((h * 60 + m) * 60 + s) * US_PER_SECOND, w)"
proof -
  define r where "r = ((h * 60 + m) * 60 + s) * 1000000"
  from assms have r: "0 \<le> r" "r < 86400000000" by (simp_all add: r_def)
  then have "(d * 86400000000 + r) div 86400000000 = d" by simp
  with assms show ?thesis
    by (simp add: timedelta_def Let_def US_PER_DAY_def US_PER_SECOND_def MAX_DELTA_DAYS_def
        r_def ret_def raise_def)
qed

lemma offset_le:
  assumes "d \<le> days_back" and "h \<le> 23" and "m \<le> 59" and "s \<le> 59"
  shows "d * US_PER_DAY + ((h * 60 + m) * 60 + s) * US_PER_SECOND
         \<le> days_back * US_PER_DAY + 86399 * US_PER_SECOND"
  using assms by (simp add: US_PER_DAY_def US_PER_SECOND_def)

lemma generate_timestamp_total:
  assumes "0 \<le> days_back" and "lookback_ok base_date days_back"
  shows "\<exists>ts w'. generate_timestamp base_date days_back w = Inr (ts, w')"
proof -
  obtain d w1 where d: "randint 0 days_back w = Inr (d, w1)"
    using assms(1) by (simp add: randint_run)
  obtain h w2 where h: "randint 0 23 w1 = Inr (h, w2)" by (simp add: randint_run)
  obtain m w3 where m: "randint 0 59 w2 = Inr (m, w3)" by (simp add: randint_run)
  obtain s w4 where s: "randint 0 59 w3 = Inr (s, w4)" by (simp add: randint_run)
  note b = randint_post [OF d] randint_post [OF h] randint_post [OF m] randint_post [OF s]
  define us where "us = d * US_PER_DAY + ((h * 60 + m) * 60 + s) * US_PER_SECOND"
  from b assms(2) have td: "timedelta d h m s w4 = Inr (us, w4)"
    unfolding us_def by (intro timedelta_run) (simp_all add: lookback_ok_def)
  from b have "0 \<le> us" unfolding us_def by (intro offset_nonneg) simp_all
  moreover from b have "us \<le> days_back * US_PER_DAY + 86399 * US_PER_SECOND"
    unfolding us_def by (intro offset_le) simp_all
  ultimately have "datetime_ok (base_date - us)"
    using assms(2) by (simp add: datetime_ok_def lookback_ok_def)
  then have ds: "datetime_sub base_date us w4 = Inr (base_date - us, w4)"
    by (simp add: datetime_sub_def ret_def)
  show ?thesis
    by (simp add: generate_timestamp_def and_then_def d h m s td ds ret_def)
qed


lemma example_base: "clock example_world 0 = 63929390400000000"
  by (simp add: example_world_def US_PER_DAY_def US_PER_SECOND_def)

lemma example_lookback: "lookback_ok 63929390400000000 90"
  by (simp add: lookback_ok_def MAX_DELTA_DAYS_def MAX_DATETIME_def US_PER_DAY_def
      US_PER_SECOND_def)

lemma generate_timestamp_calls:
  assumes "generate_timestamp base_date days_back w = Inr (ts, w')"
  shows "\<exists>d w1 h w2 m w3 s.
    randint 0 days_back w = Inr (d, w1) \<and> randint 0 23 w1 = Inr (h, w2) \<and>
    randint 0 59 w2 = Inr (m, w3) \<and> randint 0 59 w3 = Inr (s, w') \<and>
    0 \<le> d \<and> d \<le> days_back \<and> 0 \<le> h \<and> h \<le> 23 \<and> 0 \<le> m \<and> m \<le> 59 \<and> 0 \<le> s \<and> s \<le> 59 \<and>
    ts = strftime_YmdHMS
           (base_date - (d * US_PER_DAY + ((h * 60 + m) * 60 + s) * US_PER_SECOND))"
proof -
  from generate_timestamp_unpack [OF assms] obtain d w1 h w2 m w3 s w4 us w5 t w6 where
    d: "randint 0 days_back w = Inr (d, w1)" and h: "randint 0 23 w1 = Inr (h, w2)" and
    m: "randint 0 59 w2 = Inr (m, w3)" and s: "randint 0 59 w3 = Inr (s, w4)" and
    us: "timedelta d h m s w4 = Inr (us, w5)" and t: "datetime_sub base_date us w5 = Inr (t, w6)" and
    r: "ret (strftime_YmdHMS t) w6 = Inr (ts, w')"
    by blast
  from r have ts: "ts = strftime_YmdHMS t" and w6: "w' = w6" by (simp_all add: ret_def)
  from timedelta_post [OF us] datetime_sub_post [OF t] w6 have w4: "w4 = w'"
    and t': "t = base_date - (d * US_PER_DAY + ((h * 60 + m) * 60 + s) * US_PER_SECOND)"
    by simp_all
  from randint_range [OF d] randint_range [OF h] randint_range [OF m] randint_range [OF s]
  have "0 \<le> d \<and> d \<le> days_back \<and> 0 \<le> h \<and> h \<le> 23 \<and> 0 \<le> m \<and> m \<le> 59 \<and> 0 \<le> s \<and> s \<le> 59"
    by simp
  with d h m s [unfolded w4] ts [unfolded t'] show ?thesis by blast
qed

lemma generate_timestamp_reach:
  assumes "lookback_ok base_date days_back"
    and "0 \<le> d" and "d \<le> days_back" and "0 \<le> h" and "h \<le> 23" and "0 \<le> m" and "m \<le> 59"
    and "0 \<le> s" and "s \<le> 59"
  shows "outcome (generate_timestamp base_date days_back (w\<lparr>draws := offset_draws d h m s\<rparr>)) =
         Inr (strftime_YmdHMS
                (base_date - (d * US_PER_DAY + ((h * 60 + m) * 60 + s) * US_PER_SECOND)))"
proof -
  define us where "us = d * US_PER_DAY + ((h * 60 + m) * 60 + s) * US_PER_SECOND"
  from assms have dm: "d \<le> MAX_DELTA_DAYS" by (simp add: lookback_ok_def)
  have td: "\<And>v. timedelta d h m s v = Inr (us, v)"
    unfolding us_def using assms(2) dm assms(4-9) by (rule timedelta_run)
  have "0 \<le> us" unfolding us_def using assms by (intro offset_nonneg)
  moreover have "us \<le> days_back * US_PER_DAY + 86399 * US_PER_SECOND"
    unfolding us_def using assms by (intro offset_le)
  ultimately have "datetime_ok (base_date - us)"
    using assms(1) by (simp add: datetime_ok_def lookback_ok_def)
  then have ds: "\<And>v. datetime_sub base_date us v = Inr (base_date - us, v)"
    by (simp add: datetime_sub_def ret_def)
  from assms have md: "nat d mod nat (days_back + 1) = nat d" by simp
  from assms have mh: "nat h mod 24 = nat h" and mm: "nat m mod 60 = nat m"
    and ms: "nat s mod 60 = nat s" by simp_all
  from assms have db: "0 \<le> days_back" by simp
  show ?thesis
    unfolding us_def [symmetric]
    using assms(2,4,6,8)
    by (simp add: generate_timestamp_def and_then_def randint_run db offset_draws_def md mh mm ms
        td ds ret_def outcome_def)
qed

lemma example_offset_calls:
  "randint 0 90 example_world = Inr (53, skip_draws 1 example_world)"
  "randint 0 23 (skip_draws 1 example_world) = Inr (6, skip_draws 2 example_world)"
  "randint 0 59 (skip_draws 2 example_world) = Inr (45, skip_draws 3 example_world)"
  "randint 0 59 (skip_draws 3 example_world) = Inr (0, skip_draws 4 example_world)"
  by (simp_all add: randint_run example_world_def skip_draws_def)

lemma example_offset_seconds:
  "strftime_YmdHMS (63929390400000000 -
     (53 * US_PER_DAY + ((6 * 60 + 45) * 60 + 0) * US_PER_SECOND)) = PTimeText 63924786900"
  "strftime_YmdHMS (63929390400000000 -
     (90 * US_PER_DAY + ((23 * 60 + 59) * 60 + 59) * US_PER_SECOND)) = PTimeText 63921528001"
  "strftime_YmdHMS (63929390400000000 -
     (0 * US_PER_DAY + ((0 * 60 + 0) * 60 + 0) * US_PER_SECOND)) = PTimeText 63929390400"
  by (simp_all add: strftime_YmdHMS_def US_PER_DAY_def US_PER_SECOND_def)

text \<open>
  Claim C5. For a window \<open>days_back \<ge> 0\<close>, every timestamp that
  \<open>generate_timestamp\<close> returns is the text of the base moment minus an offset of
  \<open>d\<close> days, \<open>h\<close> hours, \<open>m\<close> minutes and \<open>s\<close> seconds, where
  \<open>d\<close>, \<open>h\<close>, \<open>m\<close> and \<open>s\<close> are what four successive calls
  \<open>randint(0, days_back)\<close>, \<open>randint(0, 23)\<close>, \<open>randint(0, 59)\<close> and
  \<open>randint(0, 59)\<close> return, each starting in the world the previous one left; they lie
  in \<open>0..days_back\<close>, \<open>0..23\<close>, \<open>0..59\<close> and \<open>0..59\<close>, and the second
  that the text denotes is not later than the base moment. Whenever the whole window lies
  in the range of moments that the library represents, the function returns, and every
  offset of these ranges is reached: there are raw draws with which it returns the text of
  the base moment minus that offset.
\<close>

theorem generate_timestamp_bound:
  assumes "0 \<le> days_back"
  shows "(\<forall>ts w'. generate_timestamp base_date days_back w = Inr (ts, w') \<longrightarrow>
            (\<exists>d w1 h w2 m w3 s sec.
               randint 0 days_back w = Inr (d, w1) \<and> randint 0 23 w1 = Inr (h, w2) \<and>
               randint 0 59 w2 = Inr (m, w3) \<and> randint 0 59 w3 = Inr (s, w') \<and>
               0 \<le> d \<and> d \<le> days_back \<and> 0 \<le> h \<and> h \<le> 23 \<and> 0 \<le> m \<and> m \<le> 59 \<and>
               0 \<le> s \<and> s \<le> 59 \<and>
               ts = strftime_YmdHMS
                      (base_date - (d * US_PER_DAY + ((h * 60 + m) * 60 + s) * US_PER_SECOND)) \<and>
               ts = PTimeText sec \<and> sec * US_PER_SECOND \<le> base_date)) \<and>
         (lookback_ok base_date days_back \<longrightarrow>
            (\<exists>ts w'. generate_timestamp base_date days_back w = Inr (ts, w')) \<and>
            (\<forall>d h m s. 0 \<le> d \<and> d \<le> days_back \<and> 0 \<le> h \<and> h \<le> 23 \<and> 0 \<le> m \<and> m \<le> 59 \<and>
               0 \<le> s \<and> s \<le> 59 \<longrightarrow>
               outcome (generate_timestamp base_date days_back
                          (w\<lparr>draws := offset_draws d h m s\<rparr>)) =
               Inr (strftime_YmdHMS
                      (base_date -
                       (d * US_PER_DAY + ((h * 60 + m) * 60 + s) * US_PER_SECOND)))))"
proof (intro conjI allI impI)
  fix ts w'
  assume "generate_timestamp base_date days_back w = Inr (ts, w')"
  from generate_timestamp_calls [OF this] obtain d w1 h w2 m w3 s where
    c: "randint 0 days_back w = Inr (d, w1)" "randint 0 23 w1 = Inr (h, w2)"
       "randint 0 59 w2 = Inr (m, w3)" "randint 0 59 w3 = Inr (s, w')" and
    r: "0 \<le> d" "d \<le> days_back" "0 \<le> h" "h \<le> 23" "0 \<le> m" "m \<le> 59" "0 \<le> s" "s \<le> 59" and
    ts: "ts = strftime_YmdHMS
               (base_date - (d * US_PER_DAY + ((h * 60 + m) * 60 + s) * US_PER_SECOND))"
    by blast
  define us where "us = d * US_PER_DAY + ((h * 60 + m) * 60 + s) * US_PER_SECOND"
  have "0 \<le> us" unfolding us_def using r by (intro offset_nonneg)
  moreover have "((base_date - us) div US_PER_SECOND) * US_PER_SECOND \<le> base_date - us"
    by (rule truncated_second_le)
  ultimately have "((base_date - us) div US_PER_SECOND) * US_PER_SECOND \<le> base_date" by simp
  then have "ts = PTimeText ((base_date - us) div US_PER_SECOND) \<and>
             ((base_date - us) div US_PER_SECOND) * US_PER_SECOND \<le> base_date"
    by (simp add: ts us_def strftime_YmdHMS_def)
  with c r ts show "\<exists>d w1 h w2 m w3 s sec.
               randint 0 days_back w = Inr (d, w1) \<and> randint 0 23 w1 = Inr (h, w2) \<and>
               randint 0 59 w2 = Inr (m, w3) \<and> randint 0 59 w3 = Inr (s, w') \<and>
               0 \<le> d \<and> d \<le> days_back \<and> 0 \<le> h \<and> h \<le> 23 \<and> 0 \<le> m \<and> m \<le> 59 \<and>
               0 \<le> s \<and> s \<le> 59 \<and>
               ts = strftime_YmdHMS
                      (base_date - (d * US_PER_DAY + ((h * 60 + m) * 60 + s) * US_PER_SECOND)) \<and>
               ts = PTimeText sec \<and> sec * US_PER_SECOND \<le> base_date"
    by blast
next
  assume "lookback_ok base_date days_back"
  with assms show "\<exists>ts w'. generate_timestamp base_date days_back w = Inr (ts, w')"
    by (rule generate_timestamp_total)
next
  fix d h m s :: int
  assume "lookback_ok base_date days_back"
    and "0 \<le> d \<and> d \<le> days_back \<and> 0 \<le> h \<and> h \<le> 23 \<and> 0 \<le> m \<and> m \<le> 59 \<and> 0 \<le> s \<and> s \<le> 59"
  then show "outcome (generate_timestamp base_date days_back
                          (w\<lparr>draws := offset_draws d h m s\<rparr>)) =
               Inr (strftime_YmdHMS
                      (base_date -
                       (d * US_PER_DAY + ((h * 60 + m) * 60 + s) * US_PER_SECOND)))"
    by (intro generate_timestamp_reach) simp_all
qed

theorem generate_timestamp_bound_witness:
  "(0::int) \<le> 90 \<and> lookback_ok 63929390400000000 90 \<and>
   (\<exists>w1 w2 w3 w'.
      randint 0 90 example_world = Inr (53, w1) \<and> randint 0 23 w1 = Inr (6, w2) \<and>
      randint 0 59 w2 = Inr (45, w3) \<and> randint 0 59 w3 = Inr (0, w') \<and>
      generate_timestamp 63929390400000000 90 example_world = Inr (PTimeText 63924786900, w')) \<and>
   strftime_YmdHMS (63929390400000000 -
     (53 * US_PER_DAY + ((6 * 60 + 45) * 60 + 0) * US_PER_SECOND)) = PTimeText 63924786900 \<and>
   63924786900 * US_PER_SECOND \<le> 63929390400000000 \<and>
   outcome (generate_timestamp 63929390400000000 90
              (example_world\<lparr>draws := offset_draws 90 23 59 59\<rparr>)) =
     Inr (PTimeText 63921528001) \<and>
   outcome (generate_timestamp 63929390400000000 90
              (example_world\<lparr>draws := offset_draws 0 0 0 0\<rparr>)) =
     Inr (PTimeText 63929390400)"
proof -
  have h: "(0::int) \<le> 90" by simp
  note t = generate_timestamp_bound [OF h, of 63929390400000000 example_world]
  note returned = t [THEN conjunct1, rule_format]
  note reach = t [THEN conjunct2, THEN mp, OF example_lookback]
  from reach [THEN conjunct1] obtain ts w' where
    g: "generate_timestamp 63929390400000000 90 example_world = Inr (ts, w')"
    by blast
  from returned [OF g] obtain d w1 hh w2 m w3 s sec where
    c: "randint 0 90 example_world = Inr (d, w1)" "randint 0 23 w1 = Inr (hh, w2)"
       "randint 0 59 w2 = Inr (m, w3)" "randint 0 59 w3 = Inr (s, w')" and
    ts: "ts = strftime_YmdHMS (63929390400000000 -
               (d * US_PER_DAY + ((hh * 60 + m) * 60 + s) * US_PER_SECOND))" and
    sec: "ts = PTimeText sec" "sec * US_PER_SECOND \<le> 63929390400000000"
    by blast
  from c(1) [unfolded example_offset_calls(1)]
  have d: "d = 53" "w1 = skip_draws 1 example_world" by simp_all
  from c(2) [unfolded d(2) example_offset_calls(2)]
  have hh: "hh = 6" "w2 = skip_draws 2 example_world" by simp_all
  from c(3) [unfolded hh(2) example_offset_calls(3)]
  have m: "m = 45" "w3 = skip_draws 3 example_world" by simp_all
  from c(4) [unfolded m(2) example_offset_calls(4)]
  have s: "s = 0" by simp
  from ts have ts': "ts = PTimeText 63924786900"
    unfolding d hh m s by (simp only: example_offset_seconds)
  have 1: "\<exists>w1 w2 w3 w'.
      randint 0 90 example_world = Inr (53, w1) \<and> randint 0 23 w1 = Inr (6, w2) \<and>
      randint 0 59 w2 = Inr (45, w3) \<and> randint 0 59 w3 = Inr (0, w') \<and>
      generate_timestamp 63929390400000000 90 example_world = Inr (PTimeText 63924786900, w')"
    using c g unfolding ts' d(1) hh(1) m(1) s by blast
  from sec ts' have 2: "63924786900 * US_PER_SECOND \<le> 63929390400000000" by simp
  from reach [THEN conjunct2] have
    r: "\<forall>d h m s. 0 \<le> d \<and> d \<le> 90 \<and> 0 \<le> h \<and> h \<le> 23 \<and> 0 \<le> m \<and> m \<le> 59 \<and> 0 \<le> s \<and> s \<le> 59 \<longrightarrow>
               outcome (generate_timestamp 63929390400000000 90
                          (example_world\<lparr>draws := offset_draws d h m s\<rparr>)) =
               Inr (strftime_YmdHMS
                      (63929390400000000 -
                       (d * US_PER_DAY + ((h * 60 + m) * 60 + s) * US_PER_SECOND)))" .
  from r [rule_format, of 90 23 59 59] have 3:
    "outcome (generate_timestamp 63929390400000000 90
              (example_world\<lparr>draws := offset_draws 90 23 59 59\<rparr>)) =
     Inr (PTimeText 63921528001)"
    by (simp only: example_offset_seconds) simp
  from r [rule_format, of 0 0 0 0] have 4:
    "outcome (generate_timestamp 63929390400000000 90
              (example_world\<lparr>draws := offset_draws 0 0 0 0\<rparr>)) =
     Inr (PTimeText 63929390400)"
    by (simp only: example_offset_seconds) simp
  from h example_lookback 1 example_offset_seconds(1) 2 3 4 show ?thesis by (intro conjI)
qed

subsection \<open>Records\<close>

lemma display_fields:
  "str_field (transaction_display tid acc ts amt cur ty cat desc st) ''transaction_id'' = Some tid"
  "str_field (transaction_display tid acc ts amt cur ty cat desc st) ''account_id'' = Some acc"
  "time_field (transaction_display tid acc (PTimeText sec) amt cur ty cat desc st) ''timestamp'' = Some sec"
  "float_field (transaction_display tid acc ts amt cur ty cat desc st) ''amount'' = Some amt"
  "str_field (transaction_display tid acc ts amt cur ty cat desc st) ''currency'' = Some cur"
  "str_field (transaction_display tid acc ts amt cur ty cat desc st) ''type'' = Some ty"
  "str_field (transaction_display tid acc ts amt cur ty cat desc st) ''category'' = Some cat"
  "str_field (transaction_display tid acc ts amt cur ty cat desc st) ''description'' = Some desc"
  "str_field (transaction_display tid acc ts amt cur ty cat desc st) ''status'' = Some st"
  "map fst (transaction_display tid acc ts amt cur ty cat desc st) = fieldnames"
  by (simp_all add: transaction_display_def str_field_def time_field_def float_field_def
      fieldnames_def)

lemma display_invariants:
  "transaction_id_ok (transaction_display tid acc ts amt cur ty cat desc st) = (tid \<noteq> [])"
  "account_id_ok (transaction_display tid acc ts amt cur ty cat desc st) = (acc \<noteq> [])"
  "timestamp_ok base (transaction_display tid acc (PTimeText sec) amt cur ty cat desc st) =
     (sec * US_PER_SECOND \<le> base)"
  "amount_ok (transaction_display tid acc ts amt cur ty cat desc st) = (0 < amt)"
  "currency_ok (transaction_display tid acc ts amt cur ty cat desc st) = (cur \<in> set CURRENCIES)"
  "amount_magnitude_ok (transaction_display tid acc ts amt cur ty cat desc st) =
     (10 \<le> \<bar>amt\<bar> \<and> \<bar>amt\<bar> \<le> 100000)"
  "all_fields_present (transaction_display tid acc (PTimeText sec) amt cur ty cat desc st)"
  "field_in (transaction_display tid acc ts amt cur ty cat desc st) ''account_id'' xs = (acc \<in> set xs)"
  "field_in (transaction_display tid acc ts amt cur ty cat desc st) ''type'' xs = (ty \<in> set xs)"
  "field_in (transaction_display tid acc ts amt cur ty cat desc st) ''category'' xs = (cat \<in> set xs)"
  "field_in (transaction_display tid acc ts amt cur ty cat desc st) ''description'' xs = (desc \<in> set xs)"
  "field_in (transaction_display tid acc ts amt cur ty cat desc st) ''status'' xs = (st \<in> set xs)"
  by (simp_all add: transaction_id_ok_def account_id_ok_def timestamp_ok_def amount_ok_def
      currency_ok_def amount_magnitude_ok_def all_fields_present_def field_in_def display_fields)

lemma new_dict_post:
  "new_dict d w = Inr (a, w') \<Longrightarrow> allocated w w' a \<and> objects w' a = d"
  by (auto simp: new_dict_def allocated_def)

lemma finish_record_unpack:
  assumes "finish_record tid acc ts amt cur w = Inr (a, w')"
  shows "\<exists>ty w1 cat w2 desc w3 st w4.
    choice TRANSACTION_TYPES w = Inr (ty, w1) \<and> choice CATEGORIES w1 = Inr (cat, w2) \<and>
    choice DESCRIPTIONS w2 = Inr (desc, w3) \<and> choice STATUSES w3 = Inr (st, w4) \<and>
    new_dict (transaction_display tid acc ts amt cur ty cat desc st) w4 = Inr (a, w')"
  using assms unfolding finish_record_def and_then_Inr by blast

lemma finish_record_post:
  assumes "finish_record tid acc ts amt cur w = Inr (a, w')"
  shows "allocated w w' a \<and>
    (\<exists>ty cat desc st. ty \<in> set TRANSACTION_TYPES \<and> cat \<in> set CATEGORIES \<and>
       desc \<in> set DESCRIPTIONS \<and> st \<in> set STATUSES \<and>
       objects w' a = transaction_display tid acc ts amt cur ty cat desc st)"
proof -
  from finish_record_unpack [OF assms] obtain ty w1 cat w2 desc w3 st w4 where
    c: "choice TRANSACTION_TYPES w = Inr (ty, w1)" "choice CATEGORIES w1 = Inr (cat, w2)"
       "choice DESCRIPTIONS w2 = Inr (desc, w3)" "choice STATUSES w3 = Inr (st, w4)" and
    n: "new_dict (transaction_display tid acc ts amt cur ty cat desc st) w4 = Inr (a, w')"
    by blast
  note p = choice_post [OF c(1)] choice_post [OF c(2)] choice_post [OF c(3)] choice_post [OF c(4)]
  from p have "objects w4 = objects w" "next_id w4 = next_id w" by simp_all
  with new_dict_post [OF n] have "allocated w w' a"
    and "objects w' a = transaction_display tid acc ts amt cur ty cat desc st"
    by (auto simp: allocated_def)
  with p show ?thesis by blast
qed

lemma enumerations_nonempty:
  "ACCOUNT_IDS \<noteq> []" "CURRENCIES \<noteq> []" "TRANSACTION_TYPES \<noteq> []" "CATEGORIES \<noteq> []"
  "DESCRIPTIONS \<noteq> []" "STATUSES \<noteq> []" "INVALID_TYPES \<noteq> []"
  by (simp_all add: ACCOUNT_IDS_def CURRENCIES_def TRANSACTION_TYPES_def CATEGORIES_def
      DESCRIPTIONS_def STATUSES_def INVALID_TYPES_def)

lemma finish_record_total: "\<exists>a w'. finish_record tid acc ts amt cur w = Inr (a, w')"
  by (simp add: finish_record_def and_then_def choice_run enumerations_nonempty new_dict_def)

lemma same_heap_refl: "same_heap w w"
  by (simp add: same_heap_def)

lemma same_heap_trans: "same_heap w w1 \<Longrightarrow> same_heap w1 w2 \<Longrightarrow> same_heap w w2"
  by (simp add: same_heap_def)

lemma same_heap_allocated: "same_heap w w1 \<Longrightarrow> allocated w1 w' a \<Longrightarrow> allocated w w' a"
  by (simp add: same_heap_def allocated_def)

lemma choice_heap: "choice xs w = Inr (x, w') \<Longrightarrow> same_heap w w'"
  using choice_post [of xs w x w'] by (simp add: same_heap_def)

lemma randint_heap: "randint a b w = Inr (x, w') \<Longrightarrow> same_heap w w'"
  using randint_post [of a b w x w'] by (simp add: same_heap_def)

lemma random_random_heap: "random_random w = Inr (x, w') \<Longrightarrow> same_heap w w'"
  by (auto simp: random_random_run same_heap_def)

lemma generate_timestamp_heap: "generate_timestamp b d w = Inr (x, w') \<Longrightarrow> same_heap w w'"
  using generate_timestamp_post(2) [of b d w x w'] by (simp add: same_heap_def)

lemma generate_amount_heap: "generate_amount w = Inr (x, w') \<Longrightarrow> same_heap w w'"
  using generate_amount_post(1) [of w x w'] by (simp add: same_heap_def)

lemma generate_transaction_id_heap: "generate_transaction_id i w = Inr (x, w') \<Longrightarrow> same_heap w w'"
  by (auto simp: generate_transaction_id_run same_heap_def)

lemma generate_transaction_id_nonempty: "generate_transaction_id i w = Inr (x, w') \<Longrightarrow> x \<noteq> []"
  by (auto simp: generate_transaction_id_run)

lemma account_id_nonempty: "x \<in> set ACCOUNT_IDS \<Longrightarrow> x \<noteq> []"
  by (auto simp: ACCOUNT_IDS_def)

lemma generate_timestamp_not_later:
  assumes "generate_timestamp base_date days_back w = Inr (ts, w')"
  shows "\<exists>sec. ts = PTimeText sec \<and> sec * US_PER_SECOND \<le> base_date"
proof -
  from generate_timestamp_post(1) [OF assms] obtain d h m s where
    r: "0 \<le> d" "0 \<le> h" "0 \<le> m" "0 \<le> s" and
    ts: "ts = strftime_YmdHMS
               (base_date - (d * US_PER_DAY + ((h * 60 + m) * 60 + s) * US_PER_SECOND))"
    by blast
  define us where "us = d * US_PER_DAY + ((h * 60 + m) * 60 + s) * US_PER_SECOND"
  have "0 \<le> us" unfolding us_def using r by (intro offset_nonneg)
  moreover have "((base_date - us) div US_PER_SECOND) * US_PER_SECOND \<le> base_date - us"
    by (rule truncated_second_le)
  ultimately have "((base_date - us) div US_PER_SECOND) * US_PER_SECOND \<le> base_date" by simp
  then show ?thesis by (simp add: ts us_def strftime_YmdHMS_def)
qed

lemma create_valid_unpack:
  assumes "create_valid_transaction i base_date w = Inr (a, w')"
  shows "\<exists>tid w1 acc w2 ts w3 amt w4 cur w5.
    generate_transaction_id i w = Inr (tid, w1) \<and> choice ACCOUNT_IDS w1 = Inr (acc, w2) \<and>
    generate_timestamp base_date 90 w2 = Inr (ts, w3) \<and> generate_amount w3 = Inr (amt, w4) \<and>
    choice CURRENCIES w4 = Inr (cur, w5) \<and> finish_record tid acc ts amt cur w5 = Inr (a, w')"
  using assms
  unfolding create_valid_transaction_def finish_record_def transaction_display_def and_then_Inr
  by blast

lemma create_valid_post:
  assumes "create_valid_transaction i base_date w = Inr (a, w')"
  shows "allocated w w' a" and "valid_record base_date (objects w' a)"
    and "enumerated_fields (objects w' a)" and "field_in (objects w' a) ''account_id'' ACCOUNT_IDS"
    and "amount_magnitude_ok (objects w' a)"
proof -
  from create_valid_unpack [OF assms] obtain tid w1 acc w2 ts w3 amt w4 cur w5 where
    tid: "generate_transaction_id i w = Inr (tid, w1)" and acc: "choice ACCOUNT_IDS w1 = Inr (acc, w2)" and
    ts: "generate_timestamp base_date 90 w2 = Inr (ts, w3)" and amt: "generate_amount w3 = Inr (amt, w4)" and
    cur: "choice CURRENCIES w4 = Inr (cur, w5)" and fin: "finish_record tid acc ts amt cur w5 = Inr (a, w')"
    by blast
  from finish_record_post [OF fin] obtain ty cat desc st where
    al: "allocated w5 w' a" and
    en: "ty \<in> set TRANSACTION_TYPES" "cat \<in> set CATEGORIES" "desc \<in> set DESCRIPTIONS"
        "st \<in> set STATUSES" and
    d: "objects w' a = transaction_display tid acc ts amt cur ty cat desc st"
    by blast
  have "same_heap w w5"
    by (intro same_heap_trans [OF generate_transaction_id_heap [OF tid]]
        same_heap_trans [OF choice_heap [OF acc]] same_heap_trans [OF generate_timestamp_heap [OF ts]]
        same_heap_trans [OF generate_amount_heap [OF amt]] choice_heap [OF cur])
  then show "allocated w w' a" using al by (rule same_heap_allocated)
  from generate_timestamp_not_later [OF ts] obtain sec where
    sec: "ts = PTimeText sec" "sec * US_PER_SECOND \<le> base_date" by blast
  note v = generate_transaction_id_nonempty [OF tid] choice_post [OF acc] choice_post [OF cur]
    generate_amount_post(6) [OF amt]
  from v sec show "valid_record base_date (objects w' a)"
    by (simp add: valid_record_def d display_invariants account_id_nonempty)
  from en show "enumerated_fields (objects w' a)"
    by (simp add: enumerated_fields_def d display_invariants)
  from v show "field_in (objects w' a) ''account_id'' ACCOUNT_IDS"
    by (simp add: d display_invariants)
  from v show "amount_magnitude_ok (objects w' a)"
    by (simp add: d display_invariants)
qed

lemma create_valid_total:
  assumes "lookback_ok base_date 90"
  shows "\<exists>a w'. create_valid_transaction i base_date w = Inr (a, w')"
proof -
  obtain tid w1 where tid: "generate_transaction_id i w = Inr (tid, w1)"
    by (simp add: generate_transaction_id_run)
  obtain acc w2 where acc: "choice ACCOUNT_IDS w1 = Inr (acc, w2)"
    by (simp add: choice_run enumerations_nonempty)
  obtain ts w3 where ts: "generate_timestamp base_date 90 w2 = Inr (ts, w3)"
    using generate_timestamp_total [OF _ assms, of w2] by auto
  obtain amt w4 where amt: "generate_amount w3 = Inr (amt, w4)"
    using generate_amount_total by blast
  obtain cur w5 where cur: "choice CURRENCIES w4 = Inr (cur, w5)"
    by (simp add: choice_run enumerations_nonempty)
  obtain a w' where fin: "finish_record tid acc ts amt cur w5 = Inr (a, w')"
    using finish_record_total by blast
  have "create_valid_transaction i base_date w = Inr (a, w')"
    unfolding create_valid_transaction_def and_then_Inr
    using tid acc ts amt cur fin
    unfolding finish_record_def transaction_display_def and_then_Inr by blast
  then show ?thesis by blast
qed

text \<open>
  Claim C3. Every record that \<open>create_valid_transaction\<close> returns has all nine
  fields, a positive amount, a currency of the five valid ones, a non-empty transaction
  identifier, a non-empty account identifier and a timestamp not later than the base
  moment; account, type, category, description and status come from their enumerations.
  The function returns whenever the 90-day window before the base moment lies in the range
  of moments that the library represents.
\<close>

theorem create_valid_transaction_valid:
  "(\<forall>a w'. create_valid_transaction i base_date w = Inr (a, w') \<longrightarrow>
      valid_record base_date (objects w' a) \<and> enumerated_fields (objects w' a) \<and>
      field_in (objects w' a) ''account_id'' ACCOUNT_IDS) \<and>
   (lookback_ok base_date 90 \<longrightarrow> (\<exists>a w'. create_valid_transaction i base_date w = Inr (a, w')))"
  using create_valid_post(2,3,4) [of i base_date w] create_valid_total [of base_date i w]
  by blast

theorem create_valid_transaction_valid_witness:
  "lookback_ok 63929390400000000 90 \<and>
   (\<exists>a w'. create_valid_transaction 1 63929390400000000 example_world = Inr (a, w') \<and>
      valid_record 63929390400000000 (objects w' a))"
  using create_valid_transaction_valid [of 1 63929390400000000 example_world] example_lookback
  by blast

subsection \<open>Faulted records\<close>

lemma invalid_types_cases:
  "k \<in> set INVALID_TYPES \<Longrightarrow>
   k = ''missing_id'' \<or> k = ''negative_amount'' \<or> k = ''future_date'' \<or>
   k = ''invalid_currency'' \<or> k = ''missing_account''"
  by (simp add: INVALID_TYPES_def)

lemma create_invalid_start:
  assumes "create_invalid_transaction i base_date w = Inr (a, w')"
  shows "\<exists>k w0. choice INVALID_TYPES w = Inr (k, w0)"
  using assms unfolding create_invalid_transaction_def and_then_Inr by blast

lemma create_invalid_missing_id:
  assumes "choice INVALID_TYPES w = Inr (''missing_id'', w0)"
  shows "create_invalid_transaction i base_date w =
     and_then (choice ACCOUNT_IDS) (\<lambda>acc.
     and_then (generate_timestamp base_date 90) (\<lambda>ts.
     and_then generate_amount (\<lambda>amt.
     and_then (choice CURRENCIES) (\<lambda>cur.
     finish_record [] acc ts amt cur)))) w0"
  unfolding create_invalid_transaction_def finish_record_def transaction_display_def
  by (subst and_then_def) (simp add: assms)

lemma create_invalid_negative_amount:
  assumes "choice INVALID_TYPES w = Inr (''negative_amount'', w0)"
  shows "create_invalid_transaction i base_date w =
     and_then (generate_transaction_id i) (\<lambda>tid.
     and_then (choice ACCOUNT_IDS) (\<lambda>acc.
     and_then (generate_timestamp base_date 90) (\<lambda>ts.
     and_then generate_amount (\<lambda>amt.
     and_then (choice CURRENCIES) (\<lambda>cur.
     finish_record tid acc ts (- amt) cur))))) w0"
  unfolding create_invalid_transaction_def finish_record_def transaction_display_def
  by (subst and_then_def) (simp add: assms)

lemma create_invalid_future_date:
  assumes "choice INVALID_TYPES w = Inr (''future_date'', w0)"
  shows "create_invalid_transaction i base_date w =
     and_then (randint 1 30) (\<lambda>days.
     and_then (timedelta days 0 0 0) (\<lambda>delta.
     and_then (datetime_add base_date delta) (\<lambda>future_date.
     and_then (generate_transaction_id i) (\<lambda>tid.
     and_then (choice ACCOUNT_IDS) (\<lambda>acc.
     and_then generate_amount (\<lambda>amt.
     and_then (choice CURRENCIES) (\<lambda>cur.
     finish_record tid acc (strftime_YmdHMS future_date) amt cur))))))) w0"
  unfolding create_invalid_transaction_def finish_record_def transaction_display_def
  by (subst and_then_def) (simp add: assms)

lemma create_invalid_invalid_currency:
  assumes "choice INVALID_TYPES w = Inr (''invalid_currency'', w0)"
  shows "create_invalid_transaction i base_date w =
     and_then (generate_transaction_id i) (\<lambda>tid.
     and_then (choice ACCOUNT_IDS) (\<lambda>acc.
     and_then (generate_timestamp base_date 90) (\<lambda>ts.
     and_then generate_amount (\<lambda>amt.
     finish_record tid acc ts amt ''XXX'')))) w0"
  unfolding create_invalid_transaction_def finish_record_def transaction_display_def
  by (subst and_then_def) (simp add: assms)

lemma create_invalid_missing_account:
  assumes "choice INVALID_TYPES w = Inr (''missing_account'', w0)"
  shows "create_invalid_transaction i base_date w =
     and_then (generate_transaction_id i) (\<lambda>tid.
     and_then (generate_timestamp base_date 90) (\<lambda>ts.
     and_then generate_amount (\<lambda>amt.
     and_then (choice CURRENCIES) (\<lambda>cur.
     finish_record tid [] ts amt cur)))) w0"
  unfolding create_invalid_transaction_def finish_record_def transaction_display_def
  by (subst and_then_def) (simp add: assms)

lemma future_second:
  assumes "1 \<le> d" and "d \<le> 30"
  shows "base_date < ((base_date + d * US_PER_DAY) div US_PER_SECOND) * US_PER_SECOND"
    and "((base_date + d * US_PER_DAY) div US_PER_SECOND) * US_PER_SECOND \<le> base_date + 30 * US_PER_DAY"
proof -
  have e: "(base_date + d * 86400000000) div 1000000 = base_date div 1000000 + d * 86400"
    by simp
  have m: "base_date mod 1000000 < 1000000" by simp
  have "base_date = (base_date div 1000000) * 1000000 + base_date mod 1000000" by simp
  with m assms(1) have "base_date < (base_date div 1000000 + d * 86400) * 1000000"
    by (simp add: algebra_simps)
  then show "base_date < ((base_date + d * US_PER_DAY) div US_PER_SECOND) * US_PER_SECOND"
    by (simp add: US_PER_DAY_def US_PER_SECOND_def e)
  have "((base_date + d * US_PER_DAY) div US_PER_SECOND) * US_PER_SECOND \<le> base_date + d * US_PER_DAY"
    by (rule truncated_second_le)
  also have "\<dots> \<le> base_date + 30 * US_PER_DAY" using assms(2) by (simp add: US_PER_DAY_def)
  finally show "((base_date + d * US_PER_DAY) div US_PER_SECOND) * US_PER_SECOND \<le> base_date + 30 * US_PER_DAY" .
qed

lemma xxx_not_currency: "''XXX'' \<notin> set CURRENCIES"
  by (simp add: CURRENCIES_def)

lemma missing_id_post:
  assumes "choice INVALID_TYPES w = Inr (''missing_id'', w0)"
    and "create_invalid_transaction i base_date w = Inr (a, w')"
  shows "allocated w w' a \<and>
    (\<exists>acc sec amt cur ty cat desc st.
       objects w' a = transaction_display [] acc (PTimeText sec) amt cur ty cat desc st \<and>
       acc \<in> set ACCOUNT_IDS \<and> sec * US_PER_SECOND \<le> base_date \<and> 10 \<le> amt \<and> amt \<le> 100000 \<and>
       cur \<in> set CURRENCIES)"
proof -
  from assms(2) obtain acc w2 ts w3 amt w4 cur w5 where
    acc: "choice ACCOUNT_IDS w0 = Inr (acc, w2)" and
    ts: "generate_timestamp base_date 90 w2 = Inr (ts, w3)" and amt: "generate_amount w3 = Inr (amt, w4)" and
    cur: "choice CURRENCIES w4 = Inr (cur, w5)" and fin: "finish_record [] acc ts amt cur w5 = Inr (a, w')"
    unfolding create_invalid_missing_id [OF assms(1)] and_then_Inr by blast
  from finish_record_post [OF fin] obtain ty cat desc st where
    al: "allocated w5 w' a" and
    d: "objects w' a = transaction_display [] acc ts amt cur ty cat desc st"
    by blast
  have "same_heap w w5"
    by (intro same_heap_trans [OF choice_heap [OF assms(1)]]
        same_heap_trans [OF choice_heap [OF acc]] same_heap_trans [OF generate_timestamp_heap [OF ts]]
        same_heap_trans [OF generate_amount_heap [OF amt]] choice_heap [OF cur])
  then have "allocated w w' a" using al by (rule same_heap_allocated)
  moreover from generate_timestamp_not_later [OF ts] obtain sec where
    sec: "ts = PTimeText sec" "sec * US_PER_SECOND \<le> base_date" by blast
  note v = choice_in_set [OF acc] choice_in_set [OF cur] generate_amount_post(6) [OF amt]
  ultimately show ?thesis using d [unfolded sec(1)] sec(2) v by blast
qed

lemma negative_amount_post:
  assumes "choice INVALID_TYPES w = Inr (''negative_amount'', w0)"
    and "create_invalid_transaction i base_date w = Inr (a, w')"
  shows "allocated w w' a \<and>
    (\<exists>tid acc sec amt cur ty cat desc st.
       objects w' a = transaction_display tid acc (PTimeText sec) (- amt) cur ty cat desc st \<and>
       tid \<noteq> [] \<and> acc \<in> set ACCOUNT_IDS \<and> sec * US_PER_SECOND \<le> base_date \<and>
       10 \<le> amt \<and> amt \<le> 100000 \<and> cur \<in> set CURRENCIES)"
proof -
  from assms(2) obtain tid w1 acc w2 ts w3 amt w4 cur w5 where
    tid: "generate_transaction_id i w0 = Inr (tid, w1)" and
    acc: "choice ACCOUNT_IDS w1 = Inr (acc, w2)" and
    ts: "generate_timestamp base_date 90 w2 = Inr (ts, w3)" and amt: "generate_amount w3 = Inr (amt, w4)" and
    cur: "choice CURRENCIES w4 = Inr (cur, w5)" and
    fin: "finish_record tid acc ts (- amt) cur w5 = Inr (a, w')"
    unfolding create_invalid_negative_amount [OF assms(1)] and_then_Inr by blast
  from finish_record_post [OF fin] obtain ty cat desc st where
    al: "allocated w5 w' a" and
    d: "objects w' a = transaction_display tid acc ts (- amt) cur ty cat desc st"
    by blast
  have "same_heap w w5"
    by (intro same_heap_trans [OF choice_heap [OF assms(1)]]
        same_heap_trans [OF generate_transaction_id_heap [OF tid]]
        same_heap_trans [OF choice_heap [OF acc]] same_heap_trans [OF generate_timestamp_heap [OF ts]]
        same_heap_trans [OF generate_amount_heap [OF amt]] choice_heap [OF cur])
  then have "allocated w w' a" using al by (rule same_heap_allocated)
  moreover from generate_timestamp_not_later [OF ts] obtain sec where
    sec: "ts = PTimeText sec" "sec * US_PER_SECOND \<le> base_date" by blast
  note v = generate_transaction_id_nonempty [OF tid] choice_in_set [OF acc] choice_in_set [OF cur]
    generate_amount_post(6) [OF amt]
  ultimately show ?thesis using d [unfolded sec(1)] sec(2) v by blast
qed

lemma future_date_post:
  assumes "choice INVALID_TYPES w = Inr (''future_date'', w0)"
    and "create_invalid_transaction i base_date w = Inr (a, w')"
  shows "allocated w w' a \<and>
    (\<exists>days tid acc amt cur ty cat desc st.
       objects w' a =
         transaction_display tid acc (strftime_YmdHMS (base_date + days * US_PER_DAY)) amt cur
           ty cat desc st \<and>
       1 \<le> days \<and> days \<le> 30 \<and> tid \<noteq> [] \<and> acc \<in> set ACCOUNT_IDS \<and>
       10 \<le> amt \<and> amt \<le> 100000 \<and> cur \<in> set CURRENCIES)"
proof -
  from assms(2) obtain days v1 delta v2 fut v3 tid w1 acc w2 amt w4 cur w5 where
    days: "randint 1 30 w0 = Inr (days, v1)" and delta: "timedelta days 0 0 0 v1 = Inr (delta, v2)" and
    fut: "datetime_add base_date delta v2 = Inr (fut, v3)" and
    tid: "generate_transaction_id i v3 = Inr (tid, w1)" and
    acc: "choice ACCOUNT_IDS w1 = Inr (acc, w2)" and amt: "generate_amount w2 = Inr (amt, w4)" and
    cur: "choice CURRENCIES w4 = Inr (cur, w5)" and
    fin: "finish_record tid acc (strftime_YmdHMS fut) amt cur w5 = Inr (a, w')"
    unfolding create_invalid_future_date [OF assms(1)] and_then_Inr by blast
  from finish_record_post [OF fin] obtain ty cat desc st where
    al: "allocated w5 w' a" and
    d: "objects w' a = transaction_display tid acc (strftime_YmdHMS fut) amt cur ty cat desc st"
    by blast
  from timedelta_post [OF delta] datetime_add_post [OF fut]
  have f: "fut = base_date + days * US_PER_DAY" "v2 = v1" "v3 = v2" by simp_all
  have "same_heap w v3"
    using same_heap_trans [OF choice_heap [OF assms(1)] randint_heap [OF days]] f by simp
  moreover have "same_heap v3 w5"
    by (intro same_heap_trans [OF generate_transaction_id_heap [OF tid]]
        same_heap_trans [OF choice_heap [OF acc]]
        same_heap_trans [OF generate_amount_heap [OF amt]] choice_heap [OF cur])
  ultimately have "same_heap w w5" by (rule same_heap_trans)
  then have "allocated w w' a" using al by (rule same_heap_allocated)
  moreover note v = generate_transaction_id_nonempty [OF tid] choice_in_set [OF acc]
    choice_in_set [OF cur] generate_amount_post(6) [OF amt] randint_range [OF days]
  ultimately show ?thesis using d [unfolded f(1)] v by blast
qed

lemma invalid_currency_post:
  assumes "choice INVALID_TYPES w = Inr (''invalid_currency'', w0)"
    and "create_invalid_transaction i base_date w = Inr (a, w')"
  shows "allocated w w' a \<and>
    (\<exists>tid acc sec amt ty cat desc st.
       objects w' a = transaction_display tid acc (PTimeText sec) amt ''XXX'' ty cat desc st \<and>
       tid \<noteq> [] \<and> acc \<in> set ACCOUNT_IDS \<and> sec * US_PER_SECOND \<le> base_date \<and>
       10 \<le> amt \<and> amt \<le> 100000)"
proof -
  from assms(2) obtain tid w1 acc w2 ts w3 amt w4 where
    tid: "generate_transaction_id i w0 = Inr (tid, w1)" and
    acc: "choice ACCOUNT_IDS w1 = Inr (acc, w2)" and
    ts: "generate_timestamp base_date 90 w2 = Inr (ts, w3)" and amt: "generate_amount w3 = Inr (amt, w4)" and
    fin: "finish_record tid acc ts amt ''XXX'' w4 = Inr (a, w')"
    unfolding create_invalid_invalid_currency [OF assms(1)] and_then_Inr by blast
  from finish_record_post [OF fin] obtain ty cat desc st where
    al: "allocated w4 w' a" and
    d: "objects w' a = transaction_display tid acc ts amt ''XXX'' ty cat desc st"
    by blast
  have "same_heap w w4"
    by (intro same_heap_trans [OF choice_heap [OF assms(1)]]
        same_heap_trans [OF generate_transaction_id_heap [OF tid]]
        same_heap_trans [OF choice_heap [OF acc]] same_heap_trans [OF generate_timestamp_heap [OF ts]]
        generate_amount_heap [OF amt])
  then have "allocated w w' a" using al by (rule same_heap_allocated)
  moreover from generate_timestamp_not_later [OF ts] obtain sec where
    sec: "ts = PTimeText sec" "sec * US_PER_SECOND \<le> base_date" by blast
  note v = generate_transaction_id_nonempty [OF tid] choice_in_set [OF acc]
    generate_amount_post(6) [OF amt]
  ultimately show ?thesis using d [unfolded sec(1)] sec(2) v by blast
qed

lemma missing_account_post:
  assumes "choice INVALID_TYPES w = Inr (''missing_account'', w0)"
    and "create_invalid_transaction i base_date w = Inr (a, w')"
  shows "allocated w w' a \<and>
    (\<exists>tid sec amt cur ty cat desc st.
       objects w' a = transaction_display tid [] (PTimeText sec) amt cur ty cat desc st \<and>
       tid \<noteq> [] \<and> sec * US_PER_SECOND \<le> base_date \<and> 10 \<le> amt \<and> amt \<le> 100000 \<and>
       cur \<in> set CURRENCIES)"
proof -
  from assms(2) obtain tid w1 ts w3 amt w4 cur w5 where
    tid: "generate_transaction_id i w0 = Inr (tid, w1)" and
    ts: "generate_timestamp base_date 90 w1 = Inr (ts, w3)" and amt: "generate_amount w3 = Inr (amt, w4)" and
    cur: "choice CURRENCIES w4 = Inr (cur, w5)" and
    fin: "finish_record tid [] ts amt cur w5 = Inr (a, w')"
    unfolding create_invalid_missing_account [OF assms(1)] and_then_Inr by blast
  from finish_record_post [OF fin] obtain ty cat desc st where
    al: "allocated w5 w' a" and
    d: "objects w' a = transaction_display tid [] ts amt cur ty cat desc st"
    by blast
  have "same_heap w w5"
    by (intro same_heap_trans [OF choice_heap [OF assms(1)]]
        same_heap_trans [OF generate_transaction_id_heap [OF tid]]
        same_heap_trans [OF generate_timestamp_heap [OF ts]]
        same_heap_trans [OF generate_amount_heap [OF amt]] choice_heap [OF cur])
  then have "allocated w w' a" using al by (rule same_heap_allocated)
  moreover from generate_timestamp_not_later [OF ts] obtain sec where
    sec: "ts = PTimeText sec" "sec * US_PER_SECOND \<le> base_date" by blast
  note v = generate_transaction_id_nonempty [OF tid] choice_in_set [OF cur]
    generate_amount_post(6) [OF amt]
  ultimately show ?thesis using d [unfolded sec(1)] sec(2) v by blast
qed

lemma create_invalid_post:
  assumes c: "choice INVALID_TYPES w = Inr (k, w0)"
    and r: "create_invalid_transaction i base_date w = Inr (a, w')"
  shows "allocated w w' a" and "single_fault k base_date (objects w' a)"
    and "amount_magnitude_ok (objects w' a)"
    and "k = ''negative_amount'' \<Longrightarrow>
         \<exists>x. float_field (objects w' a) ''amount'' = Some x \<and> x \<le> - 10"
proof -
  from choice_in_set [OF c] have
    "k = ''missing_id'' \<or> k = ''negative_amount'' \<or> k = ''future_date'' \<or>
     k = ''invalid_currency'' \<or> k = ''missing_account''"
    by (rule invalid_types_cases)
  then have "allocated w w' a \<and> single_fault k base_date (objects w' a) \<and>
    amount_magnitude_ok (objects w' a) \<and>
    (k = ''negative_amount'' \<longrightarrow> (\<exists>x. float_field (objects w' a) ''amount'' = Some x \<and> x \<le> - 10))"
  proof (elim disjE)
    assume k: "k = ''missing_id''"
    from missing_id_post [OF c [unfolded k] r] show ?thesis
      by (auto simp: k single_fault_def display_invariants display_fields account_id_nonempty)
  next
    assume k: "k = ''negative_amount''"
    from negative_amount_post [OF c [unfolded k] r] show ?thesis
      by (auto simp: k single_fault_def display_invariants display_fields account_id_nonempty)
  next
    assume k: "k = ''future_date''"
    from future_date_post [OF c [unfolded k] r] obtain days tid acc amt cur ty cat desc st where
      al: "allocated w w' a" and
      d: "objects w' a =
         transaction_display tid acc (strftime_YmdHMS (base_date + days * US_PER_DAY)) amt cur
           ty cat desc st" and
      v: "1 \<le> days" "days \<le> 30" "tid \<noteq> []" "acc \<in> set ACCOUNT_IDS" "10 \<le> amt" "amt \<le> 100000"
         "cur \<in> set CURRENCIES"
      by blast
    from future_second(1) [OF v(1,2), of base_date] al v show ?thesis
      by (simp add: k d single_fault_def strftime_YmdHMS_def display_invariants account_id_nonempty)
  next
    assume k: "k = ''invalid_currency''"
    from invalid_currency_post [OF c [unfolded k] r] show ?thesis
      by (auto simp: k single_fault_def display_invariants display_fields account_id_nonempty
          xxx_not_currency)
  next
    assume k: "k = ''missing_account''"
    from missing_account_post [OF c [unfolded k] r] show ?thesis
      by (auto simp: k single_fault_def display_invariants display_fields account_id_nonempty)
  qed
  then show "allocated w w' a" and "single_fault k base_date (objects w' a)"
    and "amount_magnitude_ok (objects w' a)"
    and "k = ''negative_amount'' \<Longrightarrow>
         \<exists>x. float_field (objects w' a) ''amount'' = Some x \<and> x \<le> - 10"
    by blast+
qed

lemma single_fault_violations:
  assumes "k \<in> set INVALID_TYPES" and "single_fault k base_date d"
  shows "violations base_date d = 1"
  using invalid_types_cases [OF assms(1)] assms(2)
  by (elim disjE) (simp_all add: single_fault_def violations_def)

lemma standard_fields_total:
  assumes "lookback_ok base_date 90"
  shows "\<exists>acc w2 ts w3 amt w4 cur w5.
    choice ACCOUNT_IDS w1 = Inr (acc, w2) \<and> generate_timestamp base_date 90 w2 = Inr (ts, w3) \<and>
    generate_amount w3 = Inr (amt, w4) \<and> choice CURRENCIES w4 = Inr (cur, w5)"
proof -
  obtain acc w2 where acc: "choice ACCOUNT_IDS w1 = Inr (acc, w2)"
    by (simp add: choice_run enumerations_nonempty)
  obtain ts w3 where ts: "generate_timestamp base_date 90 w2 = Inr (ts, w3)"
    using generate_timestamp_total [OF _ assms, of w2] by auto
  obtain amt w4 where amt: "generate_amount w3 = Inr (amt, w4)"
    using generate_amount_total by blast
  obtain cur w5 where cur: "choice CURRENCIES w4 = Inr (cur, w5)"
    by (simp add: choice_run enumerations_nonempty)
  from acc ts amt cur show ?thesis by blast
qed

lemma missing_id_total:
  assumes "choice INVALID_TYPES w = Inr (''missing_id'', w0)" and "lookback_ok base_date 90"
  shows "\<exists>a w'. create_invalid_transaction i base_date w = Inr (a, w')"
proof -
  from standard_fields_total [OF assms(2), of w0] obtain acc w2 ts w3 amt w4 cur w5 where
    f: "choice ACCOUNT_IDS w0 = Inr (acc, w2)" "generate_timestamp base_date 90 w2 = Inr (ts, w3)"
       "generate_amount w3 = Inr (amt, w4)" "choice CURRENCIES w4 = Inr (cur, w5)"
    by blast
  obtain a w' where "finish_record [] acc ts amt cur w5 = Inr (a, w')"
    using finish_record_total by blast
  with f show ?thesis
    unfolding create_invalid_missing_id [OF assms(1)] and_then_Inr by blast
qed

lemma negative_amount_total:
  assumes "choice INVALID_TYPES w = Inr (''negative_amount'', w0)" and "lookback_ok base_date 90"
  shows "\<exists>a w'. create_invalid_transaction i base_date w = Inr (a, w')"
proof -
  obtain tid w1 where tid: "generate_transaction_id i w0 = Inr (tid, w1)"
    by (simp add: generate_transaction_id_run)
  from standard_fields_total [OF assms(2), of w1] obtain acc w2 ts w3 amt w4 cur w5 where
    f: "choice ACCOUNT_IDS w1 = Inr (acc, w2)" "generate_timestamp base_date 90 w2 = Inr (ts, w3)"
       "generate_amount w3 = Inr (amt, w4)" "choice CURRENCIES w4 = Inr (cur, w5)"
    by blast
  obtain a w' where "finish_record tid acc ts (- amt) cur w5 = Inr (a, w')"
    using finish_record_total by blast
  with tid f show ?thesis
    unfolding create_invalid_negative_amount [OF assms(1)] and_then_Inr by blast
qed

lemma future_date_total:
  assumes "choice INVALID_TYPES w = Inr (''future_date'', w0)" and "lookahead_ok base_date"
  shows "\<exists>a w'. create_invalid_transaction i base_date w = Inr (a, w')"
proof -
  obtain days v1 where days: "randint 1 30 w0 = Inr (days, v1)" by (simp add: randint_run)
  from randint_range [OF days] have r: "1 \<le> days" "days \<le> 30" by simp_all
  then have delta: "timedelta days 0 0 0 v1 = Inr (days * US_PER_DAY, v1)"
    using timedelta_run [of days 0 0 0 v1] by (simp add: MAX_DELTA_DAYS_def)
  from r assms(2) have "datetime_ok (base_date + days * US_PER_DAY)"
    by (simp add: datetime_ok_def lookahead_ok_def US_PER_DAY_def)
  then have fut: "datetime_add base_date (days * US_PER_DAY) v1 =
      Inr (base_date + days * US_PER_DAY, v1)"
    by (simp add: datetime_add_def ret_def)
  obtain tid w1 where tid: "generate_transaction_id i v1 = Inr (tid, w1)"
    by (simp add: generate_transaction_id_run)
  obtain acc w2 where acc: "choice ACCOUNT_IDS w1 = Inr (acc, w2)"
    by (simp add: choice_run enumerations_nonempty)
  obtain amt w4 where amt: "generate_amount w2 = Inr (amt, w4)"
    using generate_amount_total by blast
  obtain cur w5 where cur: "choice CURRENCIES w4 = Inr (cur, w5)"
    by (simp add: choice_run enumerations_nonempty)
  obtain a w' where
    "finish_record tid acc (strftime_YmdHMS (base_date + days * US_PER_DAY)) amt cur w5 = Inr (a, w')"
    using finish_record_total by blast
  with days delta fut tid acc amt cur show ?thesis
    unfolding create_invalid_future_date [OF assms(1)] and_then_Inr by blast
qed

lemma invalid_currency_total:
  assumes "choice INVALID_TYPES w = Inr (''invalid_currency'', w0)" and "lookback_ok base_date 90"
  shows "\<exists>a w'. create_invalid_transaction i base_date w = Inr (a, w')"
proof -
  obtain tid w1 where tid: "generate_transaction_id i w0 = Inr (tid, w1)"
    by (simp add: generate_transaction_id_run)
  from standard_fields_total [OF assms(2), of w1] obtain acc w2 ts w3 amt w4 where
    f: "choice ACCOUNT_IDS w1 = Inr (acc, w2)" "generate_timestamp base_date 90 w2 = Inr (ts, w3)"
       "generate_amount w3 = Inr (amt, w4)"
    by blast
  obtain a w' where "finish_record tid acc ts amt ''XXX'' w4 = Inr (a, w')"
    using finish_record_total by blast
  with tid f show ?thesis
    unfolding create_invalid_invalid_currency [OF assms(1)] and_then_Inr by blast
qed

lemma missing_account_total:
  assumes "choice INVALID_TYPES w = Inr (''missing_account'', w0)" and "lookback_ok base_date 90"
  shows "\<exists>a w'. create_invalid_transaction i base_date w = Inr (a, w')"
proof -
  obtain tid w1 where tid: "generate_transaction_id i w0 = Inr (tid, w1)"
    by (simp add: generate_transaction_id_run)
  obtain ts w3 where ts: "generate_timestamp base_date 90 w1 = Inr (ts, w3)"
    using generate_timestamp_total [OF _ assms(2), of w1] by auto
  obtain amt w4 where amt: "generate_amount w3 = Inr (amt, w4)"
    using generate_amount_total by blast
  obtain cur w5 where cur: "choice CURRENCIES w4 = Inr (cur, w5)"
    by (simp add: choice_run enumerations_nonempty)
  obtain a w' where "finish_record tid [] ts amt cur w5 = Inr (a, w')"
    using finish_record_total by blast
  with tid ts amt cur show ?thesis
    unfolding create_invalid_missing_account [OF assms(1)] and_then_Inr by blast
qed

lemma create_invalid_total:
  assumes "lookback_ok base_date 90" and "lookahead_ok base_date"
  shows "\<exists>a w'. create_invalid_transaction i base_date w = Inr (a, w')"
proof -
  obtain k w0 where c: "choice INVALID_TYPES w = Inr (k, w0)"
    by (simp add: choice_run enumerations_nonempty)
  from invalid_types_cases [OF choice_in_set [OF c]] show ?thesis
  proof (elim disjE)
    assume "k = ''missing_id''"
    with c assms show ?thesis by (intro missing_id_total) simp_all
  next
    assume "k = ''negative_amount''"
    with c assms show ?thesis by (intro negative_amount_total) simp_all
  next
    assume "k = ''future_date''"
    with c assms show ?thesis by (intro future_date_total) simp_all
  next
    assume "k = ''invalid_currency''"
    with c assms show ?thesis by (intro invalid_currency_total) simp_all
  next
    assume "k = ''missing_account''"
    with c assms show ?thesis by (intro missing_account_total) simp_all
  qed
qed

lemma example_lookahead: "lookahead_ok 63929390400000000"
  by (simp add: lookahead_ok_def MAX_DATETIME_def US_PER_DAY_def)

lemma example_kind:
  "choice INVALID_TYPES example_world =
     Inr (''missing_id'', example_world\<lparr>draws := (\<lambda>n. draws example_world (Suc n))\<rparr>)"
  by (simp add: choice_run enumerations_nonempty)
     (simp add: INVALID_TYPES_def example_world_def)

lemma future_kind:
  "choice INVALID_TYPES future_world =
     Inr (''future_date'', future_world\<lparr>draws := (\<lambda>n. draws future_world (Suc n))\<rparr>)"
  by (simp add: choice_run enumerations_nonempty)
     (simp add: INVALID_TYPES_def future_world_def)

text \<open>
  Claim C1. Let \<open>kind\<close> be the fault kind that \<open>create_invalid_transaction\<close>
  chooses; it is one of the five. Every record the function returns has all nine fields,
  violates the invariant that \<open>kind\<close> names and satisfies the four others:
  \<open>missing_id\<close> the non-empty transaction identifier, \<open>negative_amount\<close> the
  positive amount, \<open>future_date\<close> the timestamp not later than the base moment,
  \<open>invalid_currency\<close> the valid currency, \<open>missing_account\<close> the non-empty
  account identifier. So exactly one invariant fails. The function returns whenever the
  90 days before and the 30 days after the base moment lie in the range of moments that the
  library represents.
\<close>

theorem create_invalid_transaction_single_fault:
  "(\<forall>kind w0. choice INVALID_TYPES w = Inr (kind, w0) \<longrightarrow>
      kind \<in> set INVALID_TYPES \<and>
      (\<forall>a w'. create_invalid_transaction i base_date w = Inr (a, w') \<longrightarrow>
         single_fault kind base_date (objects w' a) \<and>
         violations base_date (objects w' a) = 1)) \<and>
   (lookback_ok base_date 90 \<and> lookahead_ok base_date \<longrightarrow>
      (\<exists>a w'. create_invalid_transaction i base_date w = Inr (a, w')))"
proof (intro conjI allI impI)
  fix kind w0
  assume c: "choice INVALID_TYPES w = Inr (kind, w0)"
  then show k: "kind \<in> set INVALID_TYPES" by (rule choice_in_set)
  fix a w'
  assume "create_invalid_transaction i base_date w = Inr (a, w')"
  from create_invalid_post(2) [OF c this]
  show "single_fault kind base_date (objects w' a)" .
  with k show "violations base_date (objects w' a) = 1" by (rule single_fault_violations)
next
  assume "lookback_ok base_date 90 \<and> lookahead_ok base_date"
  then show "\<exists>a w'. create_invalid_transaction i base_date w = Inr (a, w')"
    by (simp add: create_invalid_total)
qed

theorem create_invalid_transaction_single_fault_witness:
  "lookback_ok 63929390400000000 90 \<and> lookahead_ok 63929390400000000 \<and>
   outcome (choice INVALID_TYPES example_world) = Inr ''missing_id'' \<and>
   (\<exists>a w'. create_invalid_transaction 1 63929390400000000 example_world = Inr (a, w') \<and>
      \<not> transaction_id_ok (objects w' a) \<and> currency_ok (objects w' a) \<and>
      account_id_ok (objects w' a) \<and> amount_ok (objects w' a) \<and>
      timestamp_ok 63929390400000000 (objects w' a) \<and> all_fields_present (objects w' a))"
proof -
  note t = create_invalid_transaction_single_fault [of example_world 1 63929390400000000]
  from t example_lookback example_lookahead obtain a w' where
    r: "create_invalid_transaction 1 63929390400000000 example_world = Inr (a, w')"
    by blast
  with t example_kind have "single_fault ''missing_id'' 63929390400000000 (objects w' a)"
    by blast
  then have "\<not> transaction_id_ok (objects w' a) \<and> currency_ok (objects w' a) \<and>
      account_id_ok (objects w' a) \<and> amount_ok (objects w' a) \<and>
      timestamp_ok 63929390400000000 (objects w' a) \<and> all_fields_present (objects w' a)"
    by (simp add: single_fault_def)
  with r example_lookback example_lookahead example_kind show ?thesis
    by (auto simp: outcome_def)
qed

text \<open>
  Claim C6. When the chosen fault kind is \<open>future_date\<close>, the timestamp of every
  record returned is the text of the base moment plus a whole number of days from 1 to 30;
  the second it denotes is after the base moment and at most 30 days after it. The record
  is returned whenever the 30 days after the base moment are representable.
\<close>

theorem future_date_offset:
  "\<forall>w0. choice INVALID_TYPES w = Inr (''future_date'', w0) \<longrightarrow>
     (\<forall>a w'. create_invalid_transaction i base_date w = Inr (a, w') \<longrightarrow>
        (\<exists>days sec. 1 \<le> days \<and> days \<le> 30 \<and>
           map_of (objects w' a) ''timestamp'' =
             Some (strftime_YmdHMS (base_date + days * US_PER_DAY)) \<and>
           time_field (objects w' a) ''timestamp'' = Some sec \<and>
           base_date < sec * US_PER_SECOND \<and>
           sec * US_PER_SECOND \<le> base_date + 30 * US_PER_DAY)) \<and>
     (lookahead_ok base_date \<longrightarrow>
        (\<exists>a w'. create_invalid_transaction i base_date w = Inr (a, w')))"
proof (intro conjI allI impI)
  fix w0 a w'
  assume c: "choice INVALID_TYPES w = Inr (''future_date'', w0)"
    and r: "create_invalid_transaction i base_date w = Inr (a, w')"
  from future_date_post [OF c r] obtain days tid acc amt cur ty cat desc st where
    d: "objects w' a =
         transaction_display tid acc (strftime_YmdHMS (base_date + days * US_PER_DAY)) amt cur
           ty cat desc st" and
    v: "1 \<le> days" "days \<le> 30"
    by blast
  define sec where "sec = (base_date + days * US_PER_DAY) div US_PER_SECOND"
  from d have "map_of (objects w' a) ''timestamp'' =
             Some (strftime_YmdHMS (base_date + days * US_PER_DAY))"
    by (simp add: transaction_display_def)
  moreover from d have "time_field (objects w' a) ''timestamp'' = Some sec"
    by (simp add: sec_def strftime_YmdHMS_def display_fields)
  moreover have "base_date < sec * US_PER_SECOND"
    and "sec * US_PER_SECOND \<le> base_date + 30 * US_PER_DAY"
    unfolding sec_def using future_second [OF v, of base_date] by simp_all
  ultimately show "\<exists>days sec. 1 \<le> days \<and> days \<le> 30 \<and>
           map_of (objects w' a) ''timestamp'' =
             Some (strftime_YmdHMS (base_date + days * US_PER_DAY)) \<and>
           time_field (objects w' a) ''timestamp'' = Some sec \<and>
           base_date < sec * US_PER_SECOND \<and>
           sec * US_PER_SECOND \<le> base_date + 30 * US_PER_DAY"
    using v by blast
next
  fix w0
  assume "choice INVALID_TYPES w = Inr (''future_date'', w0)" and "lookahead_ok base_date"
  then show "\<exists>a w'. create_invalid_transaction i base_date w = Inr (a, w')"
    by (rule future_date_total)
qed

theorem future_date_offset_witness:
  "outcome (choice INVALID_TYPES future_world) = Inr ''future_date'' \<and>
   lookahead_ok 63929390400000000 \<and>
   (\<exists>a w' sec. create_invalid_transaction 1 63929390400000000 future_world = Inr (a, w') \<and>
      time_field (objects w' a) ''timestamp'' = Some sec \<and>
      63929390400000000 < sec * US_PER_SECOND \<and>
      sec * US_PER_SECOND \<le> 63929390400000000 + 30 * US_PER_DAY)"
proof -
  note t = future_date_offset [of future_world 1 63929390400000000]
  from t future_kind example_lookahead obtain a w' where
    r: "create_invalid_transaction 1 63929390400000000 future_world = Inr (a, w')"
    by blast
  with t future_kind obtain sec where
    "time_field (objects w' a) ''timestamp'' = Some sec"
    "63929390400000000 < sec * US_PER_SECOND"
    "sec * US_PER_SECOND \<le> 63929390400000000 + 30 * US_PER_DAY"
    by blast
  with r future_kind example_lookahead show ?thesis by (auto simp: outcome_def)
qed

subsection \<open>The dataset\<close>

lemma and_then_assoc: "and_then (and_then m f) g = and_then m (\<lambda>x. and_then (f x) g)"
  by (rule ext) (auto simp: and_then_def split: sum.splits)

lemma generate_records_Cons:
  "generate_records base_date (i # rest) ts =
     and_then (record_factory i base_date) (\<lambda>t. generate_records base_date rest (ts @ [t]))"
  by (simp add: record_factory_def and_then_assoc)

lemma should_create_invalid_record_run:
  "should_create_invalid_record w =
     Inr (unit_float (draws w 0) < fl (5 / 100), w\<lparr>draws := (\<lambda>n. draws w (Suc n))\<rparr>)"
  by (simp add: should_create_invalid_record_def and_then_def random_random_run ret_def)

lemma record_factory_post:
  assumes "record_factory i base_date w = Inr (a, w')"
  shows "allocated w w' a" and "amount_magnitude_ok (objects w' a)"
proof -
  define w1 where "w1 = w\<lparr>draws := (\<lambda>n. draws w (Suc n))\<rparr>"
  have h: "same_heap w w1" by (simp add: same_heap_def w1_def)
  from assms have r: "(if unit_float (draws w 0) < fl (5 / 100) then create_invalid_transaction i base_date
                       else create_valid_transaction i base_date) w1 = Inr (a, w')"
    by (simp add: record_factory_def and_then_def should_create_invalid_record_run w1_def)
  have "allocated w1 w' a \<and> amount_magnitude_ok (objects w' a)"
  proof (cases "unit_float (draws w 0) < fl (5 / 100)")
    case True
    with r have c: "create_invalid_transaction i base_date w1 = Inr (a, w')" by simp
    from create_invalid_start [OF c] obtain k w0 where "choice INVALID_TYPES w1 = Inr (k, w0)"
      by blast
    from create_invalid_post(1,3) [OF this c] show ?thesis by simp
  next
    case False
    with r have c: "create_valid_transaction i base_date w1 = Inr (a, w')" by simp
    from create_valid_post(1,5) [OF c] show ?thesis by simp
  qed
  with h show "allocated w w' a" and "amount_magnitude_ok (objects w' a)"
    by (auto intro: same_heap_allocated)
qed

lemma record_factory_total:
  assumes "lookback_ok base_date 90" and "lookahead_ok base_date"
  shows "\<exists>a w'. record_factory i base_date w = Inr (a, w')"
  using create_invalid_total [OF assms] create_valid_total [OF assms(1)]
  by (simp add: record_factory_def and_then_def should_create_invalid_record_run)

lemma allocated_live:
  assumes "allocated w w' a" and "live w ts"
  shows "live w' (ts @ [a])" and "a \<notin> set ts" and "\<forall>b < next_id w. objects w' b = objects w b"
    and "next_id w' = Suc (next_id w)" and "a = next_id w"
  using assms by (auto simp: allocated_def live_def less_Suc_eq)

lemma generate_records_post:
  assumes "generate_records base_date idx ts w = Inr (ts', w')" and "live w ts"
  shows "\<exists>new wl. ts' = ts @ new \<and> length new = length idx \<and> length wl = length idx \<and>
           w' = last (w # wl) \<and> live w' ts' \<and> next_id w \<le> next_id w' \<and>
           (\<forall>b < next_id w. objects w' b = objects w b) \<and>
           (\<forall>k < length idx.
              record_factory (idx ! k) base_date ((w # wl) ! k) = Inr (new ! k, wl ! k) \<and>
              objects w' (new ! k) = objects (wl ! k) (new ! k) \<and>
              amount_magnitude_ok (objects w' (new ! k)))"
  using assms
proof (induction idx arbitrary: ts w)
  case Nil
  then have "ts' = ts" "w' = w" by (simp_all add: ret_def)
  with Nil.prems(2) show ?case by simp
next
  case (Cons i rest)
  from Cons.prems(1) obtain a w1 where
    f: "record_factory i base_date w = Inr (a, w1)" and
    g: "generate_records base_date rest (ts @ [a]) w1 = Inr (ts', w')"
    unfolding generate_records_Cons and_then_Inr by blast
  note p = record_factory_post [OF f]
  note l = allocated_live [OF p(1) Cons.prems(2)]
  from Cons.IH [OF g l(1)] obtain new wl where
    n: "ts' = (ts @ [a]) @ new" "length new = length rest" "length wl = length rest"
       "w' = last (w1 # wl)" "live w' ts'" "next_id w1 \<le> next_id w'" and
    fr: "\<forall>b < next_id w1. objects w' b = objects w1 b" and
    tr: "\<forall>k < length rest.
           record_factory (rest ! k) base_date ((w1 # wl) ! k) = Inr (new ! k, wl ! k) \<and>
           objects w' (new ! k) = objects (wl ! k) (new ! k) \<and>
           amount_magnitude_ok (objects w' (new ! k))"
    by blast
  have a: "objects w' a = objects w1 a" using fr l(4,5) by simp
  have "\<forall>k < length (i # rest).
          record_factory ((i # rest) ! k) base_date ((w # w1 # wl) ! k) =
            Inr ((a # new) ! k, (w1 # wl) ! k) \<and>
          objects w' ((a # new) ! k) = objects ((w1 # wl) ! k) ((a # new) ! k) \<and>
          amount_magnitude_ok (objects w' ((a # new) ! k))"
  proof (intro allI impI)
    fix k
    assume k: "k < length (i # rest)"
    show "record_factory ((i # rest) ! k) base_date ((w # w1 # wl) ! k) =
            Inr ((a # new) ! k, (w1 # wl) ! k) \<and>
          objects w' ((a # new) ! k) = objects ((w1 # wl) ! k) ((a # new) ! k) \<and>
          amount_magnitude_ok (objects w' ((a # new) ! k))"
    proof (cases k)
      case 0
      with f a p(2) show ?thesis by auto
    next
      case (Suc j)
      with k have "j < length rest" by simp
      with tr have "record_factory (rest ! j) base_date ((w1 # wl) ! j) = Inr (new ! j, wl ! j) \<and>
           objects w' (new ! j) = objects (wl ! j) (new ! j) \<and>
           amount_magnitude_ok (objects w' (new ! j))" by blast
      then show ?thesis by (auto simp: Suc)
    qed
  qed
  moreover have "ts' = ts @ (a # new)" using n(1) by simp
  moreover have "length (a # new) = length (i # rest)" "length (w1 # wl) = length (i # rest)"
    using n(2,3) by simp_all
  moreover have "w' = last (w # w1 # wl)" using n(4) by simp
  moreover have "next_id w \<le> next_id w'" using n(6) l(4) by simp
  moreover have "\<forall>b < next_id w. objects w' b = objects w b"
    using fr l(3,4) by simp
  ultimately show ?case using n(5) by blast
qed

lemma dict_copy_post:
  "dict_copy c w = Inr (a, w') \<Longrightarrow> allocated w w' a \<and> objects w' a = objects w c"
  by (auto simp: dict_copy_def dest: new_dict_post)

lemma add_duplicates_post:
  assumes "add_duplicates k ts w = Inr (ts', w')" and "live w ts"
  shows "\<exists>new. ts' = ts @ new \<and> length new = k \<and> live w' ts' \<and>
           (\<forall>b < next_id w. objects w' b = objects w b) \<and>
           (\<forall>a \<in> set new. next_id w \<le> a \<and> (\<exists>c \<in> set ts. objects w' a = objects w' c))"
  using assms
proof (induction k arbitrary: ts w)
  case 0
  then have "ts' = ts" "w' = w" by (simp_all add: ret_def)
  with "0.prems"(2) show ?case by simp
next
  case (Suc k)
  from Suc.prems(1) obtain c w1 a w2 where
    c: "choice ts w = Inr (c, w1)" and d: "dict_copy c w1 = Inr (a, w2)" and
    g: "add_duplicates k (ts @ [a]) w2 = Inr (ts', w')"
    unfolding add_duplicates.simps and_then_Inr by blast
  from dict_copy_post [OF d] have al1: "allocated w1 w2 a" and cp1: "objects w2 a = objects w1 c"
    by simp_all
  from choice_heap [OF c] have h: "same_heap w w1" .
  then have al: "allocated w w2 a" using al1 by (rule same_heap_allocated)
  from h cp1 have cp: "objects w2 a = objects w c" by (simp add: same_heap_def)
  note l = allocated_live [OF al Suc.prems(2)]
  from choice_in_set [OF c] have cin: "c \<in> set ts" .
  with Suc.prems(2) have clt: "c < next_id w" by (simp add: live_def)
  from Suc.IH [OF g l(1)] obtain new where
    n: "ts' = (ts @ [a]) @ new" "length new = k" "live w' ts'" and
    fr: "\<forall>b < next_id w2. objects w' b = objects w2 b" and
    du: "\<forall>x \<in> set new. next_id w2 \<le> x \<and> (\<exists>c' \<in> set (ts @ [a]). objects w' x = objects w' c')"
    by blast
  have frw: "\<forall>b < next_id w. objects w' b = objects w b"
    using fr l(3,4) by simp
  have "objects w' a = objects w2 a" using fr l(4,5) by simp
  also have "\<dots> = objects w c" by (rule cp)
  also have "\<dots> = objects w' c" using frw clt by simp
  finally have ac: "objects w' a = objects w' c" .
  have "\<forall>x \<in> set (a # new). next_id w \<le> x \<and> (\<exists>c' \<in> set ts. objects w' x = objects w' c')"
  proof
    fix x
    assume "x \<in> set (a # new)"
    then consider "x = a" | "x \<in> set new" by auto
    then show "next_id w \<le> x \<and> (\<exists>c' \<in> set ts. objects w' x = objects w' c')"
    proof cases
      case 1
      with ac cin l(5) show ?thesis by auto
    next
      case 2
      with du obtain c' where x: "next_id w2 \<le> x" "c' \<in> set (ts @ [a])"
        "objects w' x = objects w' c'" by blast
      from x(2) consider "c' \<in> set ts" | "c' = a" by auto
      then have "\<exists>c'' \<in> set ts. objects w' x = objects w' c''"
      proof cases
        case 1
        with x(3) show ?thesis by blast
      next
        case 2
        with x(3) ac cin show ?thesis by auto
      qed
      with x(1) l(4) show ?thesis by simp
    qed
  qed
  moreover have "ts' = ts @ (a # new)" using n(1) by simp
  moreover have "length (a # new) = Suc k" using n(2) by simp
  ultimately show ?case using n(3) frw by blast
qed

lemma generate_records_total:
  assumes "lookback_ok base_date 90" and "lookahead_ok base_date"
  shows "\<exists>ts' w'. generate_records base_date idx ts w = Inr (ts', w')"
proof (induction idx arbitrary: ts w)
  case Nil
  show ?case by (simp add: ret_def)
next
  case (Cons i rest)
  from record_factory_total [OF assms] obtain a w1 where
    "record_factory i base_date w = Inr (a, w1)" by blast
  moreover from Cons obtain ts' w' where
    "generate_records base_date rest (ts @ [a]) w1 = Inr (ts', w')" by blast
  ultimately show ?case unfolding generate_records_Cons and_then_Inr by blast
qed

lemma add_duplicates_total:
  assumes "ts \<noteq> [] \<or> k = 0"
  shows "\<exists>ts' w'. add_duplicates k ts w = Inr (ts', w')"
  using assms
proof (induction k arbitrary: ts w)
  case 0
  show ?case by (simp add: ret_def)
next
  case (Suc k)
  then have ne: "ts \<noteq> []" by simp
  then obtain c w1 where c: "choice ts w = Inr (c, w1)" by (simp add: choice_run)
  obtain a w2 where d: "dict_copy c w1 = Inr (a, w2)" by (simp add: dict_copy_def new_dict_def)
  have "ts @ [a] \<noteq> [] \<or> k = 0" by simp
  from Suc.IH [OF this] obtain ts' w' where
    "add_duplicates k (ts @ [a]) w2 = Inr (ts', w')" by blast
  with c d show ?case unfolding add_duplicates.simps and_then_Inr by blast
qed

lemma num_duplicates: "nat (py_int (of_nat n * (2 / 100))) = n div 50"
proof -
  have "(of_nat n * (2 / 100) :: rat) = of_int (int n) / of_int 50" by simp
  then have "\<lfloor>of_nat n * (2 / 100) :: rat\<rfloor> = int n div 50"
    by (simp only: floor_divide_of_int_eq)
  moreover have "(0::rat) \<le> of_nat n * (2 / 100)" by simp
  ultimately show ?thesis by (simp add: py_int_def nat_div_distrib)
qed

lemma num_duplicates_double:
  "py_int (fl (float_of_int (int NUM_TRANSACTIONS) * fl (2 / 100))) =
   py_int (of_nat NUM_TRANSACTIONS * (2 / 100))"
proof -
  have "py_int (fl (float_of_int 100000 * fl (2 / 100))) = 2000" by code_simp
  moreover have "py_int (of_nat NUM_TRANSACTIONS * (2 / 100)) = 2000"
    by (simp add: NUM_TRANSACTIONS_def py_int_def)
  ultimately show ?thesis by (simp add: NUM_TRANSACTIONS_def)
qed

lemma length_indices: "length [1..int n] = n"
  by simp

lemma nth_indices: "k < n \<Longrightarrow> [1..int n] ! k = int k + 1"
  by (simp add: nth_upto)

lemma generate_transactions_unpack:
  assumes "generate_transactions_for n w = Inr (ts, w')"
  shows "\<exists>gen w2.
    generate_records (clock w 0) [1..int n] [] (w\<lparr>clock := (\<lambda>m. clock w (Suc m))\<rparr>) = Inr (gen, w2) \<and>
    add_duplicates (n div 50) gen w2 = Inr (ts, w')"
  using assms
  unfolding generate_transactions_for_def and_then_Inr num_duplicates
  by (auto simp: datetime_now_def)

lemma dataset_structure:
  assumes "generate_transactions_for n w = Inr (ts, w')"
  shows "\<exists>gen dups w2 wl.
    generate_records (clock w 0) [1..int n] [] (w\<lparr>clock := (\<lambda>m. clock w (Suc m))\<rparr>) = Inr (gen, w2) \<and>
    ts = gen @ dups \<and> length gen = n \<and> length dups = n div 50 \<and> length wl = n \<and> distinct ts \<and>
    (\<forall>b < next_id w2. objects w' b = objects w2 b) \<and>
    (\<forall>a \<in> set gen. a < next_id w2) \<and>
    (\<forall>k < n. record_factory (int k + 1) (clock w 0)
                 ((w\<lparr>clock := (\<lambda>m. clock w (Suc m))\<rparr> # wl) ! k) = Inr (gen ! k, wl ! k) \<and>
              objects w2 (gen ! k) = objects (wl ! k) (gen ! k) \<and>
              amount_magnitude_ok (objects w2 (gen ! k))) \<and>
    (\<forall>a \<in> set dups. next_id w2 \<le> a \<and> (\<exists>c \<in> set gen. objects w' a = objects w' c))"
proof -
  define w1 where "w1 = w\<lparr>clock := (\<lambda>m. clock w (Suc m))\<rparr>"
  from generate_transactions_unpack [OF assms] obtain gen w2 where
    g: "generate_records (clock w 0) [1..int n] [] w1 = Inr (gen, w2)" and
    a: "add_duplicates (n div 50) gen w2 = Inr (ts, w')"
    unfolding w1_def by blast
  have "live w1 []" by (simp add: live_def)
  from generate_records_post [OF g this] obtain new wl where
    n: "gen = [] @ new" "length new = length [1..int n]" "length wl = length [1..int n]"
       "live w2 gen" and
    tr: "\<forall>k < length [1..int n].
           record_factory ([1..int n] ! k) (clock w 0) ((w1 # wl) ! k) = Inr (new ! k, wl ! k) \<and>
           objects w2 (new ! k) = objects (wl ! k) (new ! k) \<and>
           amount_magnitude_ok (objects w2 (new ! k))"
    by blast
  from n have gn: "new = gen" "length gen = n" "length wl = n" by (simp_all only: length_indices append_Nil)
  have tr': "\<forall>k < n. record_factory (int k + 1) (clock w 0) ((w1 # wl) ! k) = Inr (gen ! k, wl ! k) \<and>
           objects w2 (gen ! k) = objects (wl ! k) (gen ! k) \<and>
           amount_magnitude_ok (objects w2 (gen ! k))"
  proof (intro allI impI)
    fix k
    assume k: "k < n"
    then have "k < length [1..int n]" by (simp only: length_indices)
    with tr have "record_factory ([1..int n] ! k) (clock w 0) ((w1 # wl) ! k) = Inr (new ! k, wl ! k) \<and>
           objects w2 (new ! k) = objects (wl ! k) (new ! k) \<and>
           amount_magnitude_ok (objects w2 (new ! k))"
      by blast
    then show "record_factory (int k + 1) (clock w 0) ((w1 # wl) ! k) = Inr (gen ! k, wl ! k) \<and>
           objects w2 (gen ! k) = objects (wl ! k) (gen ! k) \<and>
           amount_magnitude_ok (objects w2 (gen ! k))"
      unfolding nth_indices [OF k] gn(1) .
  qed
  from add_duplicates_post [OF a n(4)] obtain dups where
    d: "ts = gen @ dups" "length dups = n div 50" "live w' ts"
       "\<forall>b < next_id w2. objects w' b = objects w2 b"
       "\<forall>a \<in> set dups. next_id w2 \<le> a \<and> (\<exists>c \<in> set gen. objects w' a = objects w' c)"
    by blast
  from d(3) have "distinct ts" by (simp add: live_def)
  moreover from n(4) have "\<forall>a \<in> set gen. a < next_id w2" by (simp add: live_def)
  ultimately show ?thesis using g d gn tr' unfolding w1_def by blast
qed

lemma generate_transactions_total:
  assumes "lookback_ok (clock w 0) 90" and "lookahead_ok (clock w 0)"
  shows "\<exists>ts w'. generate_transactions_for n w = Inr (ts, w')"
proof -
  define w1 where "w1 = w\<lparr>clock := (\<lambda>m. clock w (Suc m))\<rparr>"
  from generate_records_total [OF assms] obtain gen w2 where
    g: "generate_records (clock w 0) [1..int n] [] w1 = Inr (gen, w2)" by blast
  have "live w1 []" by (simp add: live_def)
  from generate_records_post [OF g this] have "length gen = n" by auto
  then have "gen \<noteq> [] \<or> n div 50 = 0" by auto
  from add_duplicates_total [OF this] obtain ts w' where
    "add_duplicates (n div 50) gen w2 = Inr (ts, w')" by blast
  with g have "generate_transactions_for n w = Inr (ts, w')"
    unfolding generate_transactions_for_def and_then_Inr num_duplicates w1_def
    by (auto simp: datetime_now_def)
  then show ?thesis by blast
qed

lemma distinct_nth_fresh: "distinct xs \<Longrightarrow> j < length xs \<Longrightarrow> xs ! j \<notin> set (take j xs)"
  by (auto simp: in_set_conv_nth distinct_conv_nth)

lemma floor_two_percent: "nat \<lfloor>rat_of_nat n * (2 / 100)\<rfloor> = n div 50"
  using num_duplicates [of n] by (simp add: py_int_def)

lemma example_clock_ok:
  "lookback_ok (clock example_world 0) 90" "lookahead_ok (clock example_world 0)"
  by (simp_all add: example_base example_lookback example_lookahead)

lemma dataset_duplicates:
  "\<forall>ts w'. generate_transactions_for n w = Inr (ts, w') \<longrightarrow>
     (\<forall>j. n \<le> j \<and> j < length ts \<longrightarrow>
        ts ! j \<notin> set (take j ts) \<and> (\<exists>k < n. objects w' (ts ! j) = objects w' (ts ! k)))"
proof (intro allI impI)
  fix ts w' j
  assume r: "generate_transactions_for n w = Inr (ts, w')" and j: "n \<le> j \<and> j < length ts"
  from dataset_structure [OF r] obtain gen dups where
    s: "ts = gen @ dups" "length gen = n" "distinct ts" and
    d: "\<forall>a \<in> set dups. \<exists>c \<in> set gen. objects w' a = objects w' c"
    by blast
  from j s have "j - n < length dups" by auto
  moreover from j s have "ts ! j = dups ! (j - n)" by (auto simp: nth_append)
  ultimately have "ts ! j = dups ! (j - n)" and "j - n < length dups" by simp_all
  then have "ts ! j \<in> set dups" by simp
  with d obtain c where c: "c \<in> set gen" "objects w' (ts ! j) = objects w' c" by blast
  from c(1) obtain k where "k < length gen" "gen ! k = c" by (auto simp: in_set_conv_nth)
  with s have "k < n" "ts ! k = c" by (simp_all add: nth_append)
  with c(2) have "\<exists>k < n. objects w' (ts ! j) = objects w' (ts ! k)" by auto
  moreover from s(3) j have "ts ! j \<notin> set (take j ts)" by (simp add: distinct_nth_fresh)
  ultimately show "ts ! j \<notin> set (take j ts) \<and> (\<exists>k < n. objects w' (ts ! j) = objects w' (ts ! k))"
    by simp
qed



lemma dataset_frame:
  "\<forall>ts w'. generate_transactions_for n w = Inr (ts, w') \<longrightarrow>
     (\<exists>gen w2 wl.
        generate_records (clock w 0) [1..int n] [] (w\<lparr>clock := (\<lambda>m. clock w (Suc m))\<rparr>) =
          Inr (gen, w2) \<and>
        take n ts = gen \<and> length gen = n \<and> length wl = n \<and>
        (\<forall>k < n. record_factory (int k + 1) (clock w 0)
                     ((w\<lparr>clock := (\<lambda>m. clock w (Suc m))\<rparr> # wl) ! k) = Inr (ts ! k, wl ! k) \<and>
                  objects w' (ts ! k) = objects (wl ! k) (ts ! k)) \<and>
        (\<forall>b < next_id w2. objects w' b = objects w2 b))"
proof (intro allI impI)
  fix ts w'
  assume r: "generate_transactions_for n w = Inr (ts, w')"
  from dataset_structure [OF r] obtain gen dups w2 wl where
    g: "generate_records (clock w 0) [1..int n] [] (w\<lparr>clock := (\<lambda>m. clock w (Suc m))\<rparr>) =
          Inr (gen, w2)" and
    s: "ts = gen @ dups" "length gen = n" "length wl = n" and
    fr: "\<forall>b < next_id w2. objects w' b = objects w2 b" and
    lv: "\<forall>a \<in> set gen. a < next_id w2" and
    tr: "\<forall>k < n. record_factory (int k + 1) (clock w 0)
                 ((w\<lparr>clock := (\<lambda>m. clock w (Suc m))\<rparr> # wl) ! k) = Inr (gen ! k, wl ! k) \<and>
              objects w2 (gen ! k) = objects (wl ! k) (gen ! k) \<and>
              amount_magnitude_ok (objects w2 (gen ! k))"
    by blast
  have "\<forall>k < n. record_factory (int k + 1) (clock w 0)
                 ((w\<lparr>clock := (\<lambda>m. clock w (Suc m))\<rparr> # wl) ! k) = Inr (ts ! k, wl ! k) \<and>
              objects w' (ts ! k) = objects (wl ! k) (ts ! k)"
  proof (intro allI impI)
    fix k
    assume k: "k < n"
    with s have e: "ts ! k = gen ! k" and "gen ! k \<in> set gen" by (simp_all add: nth_append)
    with lv fr have "objects w' (gen ! k) = objects w2 (gen ! k)" by blast
    with tr k e show "record_factory (int k + 1) (clock w 0)
                 ((w\<lparr>clock := (\<lambda>m. clock w (Suc m))\<rparr> # wl) ! k) = Inr (ts ! k, wl ! k) \<and>
              objects w' (ts ! k) = objects (wl ! k) (ts ! k)"
      by auto
  qed
  moreover from s have "take n ts = gen" by simp
  ultimately show "\<exists>gen w2 wl.
        generate_records (clock w 0) [1..int n] [] (w\<lparr>clock := (\<lambda>m. clock w (Suc m))\<rparr>) =
          Inr (gen, w2) \<and>
        take n ts = gen \<and> length gen = n \<and> length wl = n \<and>
        (\<forall>k < n. record_factory (int k + 1) (clock w 0)
                     ((w\<lparr>clock := (\<lambda>m. clock w (Suc m))\<rparr> # wl) ! k) = Inr (ts ! k, wl ! k) \<and>
                  objects w' (ts ! k) = objects (wl ! k) (ts ! k)) \<and>
        (\<forall>b < next_id w2. objects w' b = objects w2 b)"
    using g s fr by blast
qed



text \<open>
  Claim C2. For every record count \<open>n\<close>, the list that \<open>generate_transactions\<close>
  builds has \<open>n + floor(n * 0.02)\<close> elements, of which \<open>floor(n * 0.02)\<close> come
  after the first \<open>n\<close>: the number of duplicates depends on \<open>n\<close> only. The
  list is built whenever the 90 days before and the 30 days after the first clock reading
  are representable.
\<close>

theorem duplicate_count_exact:
  "(\<forall>ts w'. generate_transactions_for n w = Inr (ts, w') \<longrightarrow>
      length ts = n + nat \<lfloor>rat_of_nat n * (2 / 100)\<rfloor> \<and>
      length (drop n ts) = nat \<lfloor>rat_of_nat n * (2 / 100)\<rfloor>) \<and>
   (lookback_ok (clock w 0) 90 \<and> lookahead_ok (clock w 0) \<longrightarrow>
      (\<exists>ts w'. generate_transactions_for n w = Inr (ts, w')))"
proof (intro conjI allI impI)
  fix ts w'
  assume "generate_transactions_for n w = Inr (ts, w')"
  from dataset_structure [OF this] obtain gen dups where
    "ts = gen @ dups" "length gen = n" "length dups = n div 50" by blast
  then show "length ts = n + nat \<lfloor>rat_of_nat n * (2 / 100)\<rfloor>"
    and "length (drop n ts) = nat \<lfloor>rat_of_nat n * (2 / 100)\<rfloor>"
    unfolding floor_two_percent by simp_all
next
  assume "lookback_ok (clock w 0) 90 \<and> lookahead_ok (clock w 0)"
  then show "\<exists>ts w'. generate_transactions_for n w = Inr (ts, w')"
    by (simp add: generate_transactions_total)
qed

theorem duplicate_count_exact_witness:
  "lookback_ok (clock example_world 0) 90 \<and> lookahead_ok (clock example_world 0) \<and>
   (\<exists>ts w'. generate_transactions example_world = Inr (ts, w') \<and> length ts = 102000)"
proof -
  note t = duplicate_count_exact [of NUM_TRANSACTIONS example_world]
  from t example_clock_ok obtain ts w' where
    r: "generate_transactions_for NUM_TRANSACTIONS example_world = Inr (ts, w')" by blast
  with t have "length ts = NUM_TRANSACTIONS + nat \<lfloor>rat_of_nat NUM_TRANSACTIONS * (2 / 100)\<rfloor>"
    by blast
  then have "length ts = 102000" by (simp add: NUM_TRANSACTIONS_def)
  with r example_clock_ok show ?thesis by (auto simp: generate_transactions_def)
qed

lemma add_duplicates_rounds:
  assumes "add_duplicates k ts w = Inr (ts', w')" and "live w ts"
  shows "\<exists>vl. length vl = k \<and> last (w # vl) = w' \<and>
           (\<forall>i < k. \<exists>c u. choice (take (length ts + i) ts') ((w # vl) ! i) = Inr (c, u) \<and>
                          dict_copy c u = Inr (ts' ! (length ts + i), vl ! i) \<and>
                          objects w' (ts' ! (length ts + i)) = objects w' c)"
  using assms
proof (induction k arbitrary: ts w)
  case 0
  then have "w' = w" by (simp add: ret_def)
  then show ?case by simp
next
  case (Suc k)
  from Suc.prems(1) obtain c w1 a w2 where
    c: "choice ts w = Inr (c, w1)" and d: "dict_copy c w1 = Inr (a, w2)" and
    g: "add_duplicates k (ts @ [a]) w2 = Inr (ts', w')"
    unfolding add_duplicates.simps and_then_Inr by blast
  from dict_copy_post [OF d] have al1: "allocated w1 w2 a" and cp1: "objects w2 a = objects w1 c"
    by simp_all
  from choice_heap [OF c] have h: "same_heap w w1" .
  then have al: "allocated w w2 a" using al1 by (rule same_heap_allocated)
  from h cp1 have cp: "objects w2 a = objects w c" by (simp add: same_heap_def)
  note l = allocated_live [OF al Suc.prems(2)]
  from choice_in_set [OF c] have cin: "c \<in> set ts" .
  with Suc.prems(2) have clt: "c < next_id w" by (simp add: live_def)
  from add_duplicates_post [OF g l(1)] obtain new where
    n: "ts' = (ts @ [a]) @ new" and
    fr: "\<forall>b < next_id w2. objects w' b = objects w2 b"
    by blast
  have frw: "\<forall>b < next_id w. objects w' b = objects w b"
    using fr l(3,4) by simp
  have "objects w' a = objects w2 a" using fr l(4,5) by simp
  also have "\<dots> = objects w c" by (rule cp)
  also have "\<dots> = objects w' c" using frw clt by simp
  finally have ac: "objects w' a = objects w' c" .
  from n have t0: "take (length ts) ts' = ts" and a0: "ts' ! length ts = a" by simp_all
  from Suc.IH [OF g l(1)] obtain vl where
    v: "length vl = k" "last (w2 # vl) = w'" and
    r: "\<forall>i < k. \<exists>c u. choice (take (length (ts @ [a]) + i) ts') ((w2 # vl) ! i) = Inr (c, u) \<and>
                      dict_copy c u = Inr (ts' ! (length (ts @ [a]) + i), vl ! i) \<and>
                      objects w' (ts' ! (length (ts @ [a]) + i)) = objects w' c"
    by blast
  have "\<forall>i < Suc k. \<exists>c u. choice (take (length ts + i) ts') ((w # w2 # vl) ! i) = Inr (c, u) \<and>
                          dict_copy c u = Inr (ts' ! (length ts + i), (w2 # vl) ! i) \<and>
                          objects w' (ts' ! (length ts + i)) = objects w' c"
  proof (intro allI impI)
    fix i
    assume i: "i < Suc k"
    show "\<exists>c u. choice (take (length ts + i) ts') ((w # w2 # vl) ! i) = Inr (c, u) \<and>
                 dict_copy c u = Inr (ts' ! (length ts + i), (w2 # vl) ! i) \<and>
                 objects w' (ts' ! (length ts + i)) = objects w' c"
    proof (cases i)
      case 0
      with c d ac t0 a0 show ?thesis by simp
    next
      case (Suc j)
      with i have "j < k" by simp
      with r have "\<exists>c u. choice (take (length (ts @ [a]) + j) ts') ((w2 # vl) ! j) = Inr (c, u) \<and>
                      dict_copy c u = Inr (ts' ! (length (ts @ [a]) + j), vl ! j) \<and>
                      objects w' (ts' ! (length (ts @ [a]) + j)) = objects w' c"
        by blast
      then show ?thesis by (simp add: Suc)
    qed
  qed
  moreover have "length (w2 # vl) = Suc k" using v(1) by simp
  moreover have "last (w # w2 # vl) = w'" using v(2) by simp
  ultimately show ?case by blast
qed

lemma add_duplicates_reach:
  assumes "i < length xs"
  shows "\<exists>w'. add_duplicates 1 xs (v\<lparr>draws := (\<lambda>m. i)\<rparr>) = Inr (xs @ [next_id v], w') \<and>
              objects w' (next_id v) = objects v (xs ! i)"
proof -
  from assms have ne: "xs \<noteq> []" by auto
  from assms ne show ?thesis
    by (simp add: and_then_def choice_run dict_copy_def new_dict_def ret_def)
qed

lemma keeps_ret: "keeps_steady K (ret x)"
  by (simp add: keeps_steady_def ret_def)

lemma keeps_raise: "keeps_steady K (raise e)"
  by (simp add: keeps_steady_def raise_def)

lemma keeps_and_then:
  assumes "keeps_steady K m" and "\<And>x. keeps_steady K (f x)"
  shows "keeps_steady K (and_then m f)"
  unfolding keeps_steady_def
proof (intro allI impI)
  fix w y w'
  assume h: "steady K w \<and> and_then m f w = Inr (y, w')"
  then obtain x w1 where m: "m w = Inr (x, w1)" and f: "f x w1 = Inr (y, w')"
    unfolding and_then_Inr by blast
  from assms(1) h m have "steady K w1" unfolding keeps_steady_def by blast
  with assms(2) [of x] f show "steady K w'" unfolding keeps_steady_def by blast
qed

lemma keeps_if:
  "keeps_steady K a \<Longrightarrow> keeps_steady K b \<Longrightarrow> keeps_steady K (if c then a else b)"
  by simp

lemma keeps_take_draw: "keeps_steady K take_draw"
  by (auto simp: keeps_steady_def take_draw_def steady_def)

lemma keeps_datetime_now: "keeps_steady K datetime_now"
  by (auto simp: keeps_steady_def datetime_now_def steady_def)

lemma keeps_new_dict: "keeps_steady K (new_dict d)"
  by (auto simp: keeps_steady_def new_dict_def steady_def)

lemmas keeps_rules = keeps_and_then keeps_if keeps_ret keeps_raise keeps_take_draw
  keeps_datetime_now keeps_new_dict

lemma keeps_choice: "keeps_steady K (choice xs)"
  unfolding choice_def by (intro keeps_rules)

lemma keeps_randint: "keeps_steady K (randint a b)"
  unfolding randint_def by (intro keeps_rules)

lemma keeps_generate_amount: "keeps_steady K generate_amount"
  unfolding generate_amount_def uniform_def random_random_def by (intro keeps_rules)

lemma keeps_timedelta: "keeps_steady K (timedelta d h m s)"
  unfolding timedelta_def Let_def by (intro keeps_rules)

lemma keeps_generate_timestamp: "keeps_steady K (generate_timestamp b d)"
  unfolding generate_timestamp_def datetime_sub_def
  by (intro keeps_rules keeps_randint keeps_timedelta)

lemma keeps_generate_transaction_id: "keeps_steady K (generate_transaction_id i)"
  unfolding generate_transaction_id_def by (intro keeps_rules)

lemmas keeps_calls = keeps_rules keeps_choice keeps_randint keeps_generate_amount keeps_timedelta
  keeps_generate_timestamp keeps_generate_transaction_id

lemma keeps_create_valid: "keeps_steady K (create_valid_transaction i b)"
  unfolding create_valid_transaction_def by (intro keeps_calls)

lemma keeps_create_invalid: "keeps_steady K (create_invalid_transaction i b)"
  unfolding create_invalid_transaction_def datetime_add_def by (intro keeps_calls)

lemma keeps_generate_records: "keeps_steady K (generate_records b idx ts)"
proof (induction idx arbitrary: ts)
  case Nil
  show ?case by (simp add: keeps_ret)
next
  case (Cons i rest)
  show ?case
    unfolding generate_records.simps should_create_invalid_record_def random_random_def
    by (intro keeps_calls keeps_create_valid keeps_create_invalid Cons.IH)
qed

lemma dataset_sources:
  assumes "generate_transactions_for n w = Inr (ts, w')"
  shows "\<exists>gen w2 vl.
        generate_records (clock w 0) [1..int n] [] (w\<lparr>clock := (\<lambda>m. clock w (Suc m))\<rparr>) =
          Inr (gen, w2) \<and>
        take n ts = gen \<and> length vl = length ts - n \<and> last (w2 # vl) = w' \<and>
        (\<forall>j. n \<le> j \<and> j < length ts \<longrightarrow>
           (\<exists>c u. choice (take j ts) ((w2 # vl) ! (j - n)) = Inr (c, u) \<and>
                  c = ts ! (draws ((w2 # vl) ! (j - n)) 0 mod j) \<and>
                  dict_copy c u = Inr (ts ! j, vl ! (j - n)) \<and>
                  objects w' (ts ! j) = objects w' c))"
proof -
  from generate_transactions_unpack [OF assms] obtain gen w2 where
    g: "generate_records (clock w 0) [1..int n] [] (w\<lparr>clock := (\<lambda>m. clock w (Suc m))\<rparr>) =
          Inr (gen, w2)" and
    a: "add_duplicates (n div 50) gen w2 = Inr (ts, w')"
    by blast
  have "live (w\<lparr>clock := (\<lambda>m. clock w (Suc m))\<rparr>) []" by (simp add: live_def)
  from generate_records_post [OF g this] have lv: "live w2 gen" and "length gen = length [1..int n]"
    by auto
  then have ln: "length gen = n" by (simp only: length_indices)
  from add_duplicates_post [OF a lv] obtain dups where
    d: "ts = gen @ dups" "length dups = n div 50" by blast
  from add_duplicates_rounds [OF a lv] obtain vl where
    v: "length vl = n div 50" "last (w2 # vl) = w'" and
    r: "\<forall>i < n div 50. \<exists>c u. choice (take (length gen + i) ts) ((w2 # vl) ! i) = Inr (c, u) \<and>
                          dict_copy c u = Inr (ts ! (length gen + i), vl ! i) \<and>
                          objects w' (ts ! (length gen + i)) = objects w' c"
    by blast
  have "\<forall>j. n \<le> j \<and> j < length ts \<longrightarrow>
           (\<exists>c u. choice (take j ts) ((w2 # vl) ! (j - n)) = Inr (c, u) \<and>
                  c = ts ! (draws ((w2 # vl) ! (j - n)) 0 mod j) \<and>
                  dict_copy c u = Inr (ts ! j, vl ! (j - n)) \<and>
                  objects w' (ts ! j) = objects w' c)"
  proof (intro allI impI)
    fix j
    assume j: "n \<le> j \<and> j < length ts"
    then have j1: "n \<le> j" and j2: "j < length ts" by simp_all
    from d ln have "length ts = n + n div 50" by simp
    with j1 j2 have i: "j - n < n div 50" by arith
    from j1 ln have e: "length gen + (j - n) = j" by simp
    from r i obtain c u where
      c: "choice (take (length gen + (j - n)) ts) ((w2 # vl) ! (j - n)) = Inr (c, u)" and
      p: "dict_copy c u = Inr (ts ! (length gen + (j - n)), vl ! (j - n))" and
      o: "objects w' (ts ! (length gen + (j - n))) = objects w' c"
      by blast
    note c' = c [unfolded e] and p' = p [unfolded e] and o' = o [unfolded e]
    from choice_post [OF c'] have ne: "take j ts \<noteq> []"
      and cx: "c = take j ts ! (draws ((w2 # vl) ! (j - n)) 0 mod length (take j ts))"
      by simp_all
    from j have lt: "length (take j ts) = j" by simp
    from ne lt have "0 < j" by auto
    then have "draws ((w2 # vl) ! (j - n)) 0 mod j < j" by simp
    with cx lt have "c = ts ! (draws ((w2 # vl) ! (j - n)) 0 mod j)" by simp
    with c' p' o' show "\<exists>c u. choice (take j ts) ((w2 # vl) ! (j - n)) = Inr (c, u) \<and>
                  c = ts ! (draws ((w2 # vl) ! (j - n)) 0 mod j) \<and>
                  dict_copy c u = Inr (ts ! j, vl ! (j - n)) \<and>
                  objects w' (ts ! j) = objects w' c"
      by blast
  qed
  moreover from d ln have "take n ts = gen" by simp
  moreover from d ln v have "length vl = length ts - n" by simp
  ultimately show ?thesis using g v(2) by blast
qed

lemma steady_world_clock:
  "lookback_ok (clock steady_world 0) 90" "lookahead_ok (clock steady_world 0)"
  using example_clock_ok by (simp_all add: steady_world_def)

lemma steady_world_records:
  assumes "generate_records b idx [] (steady_world\<lparr>clock := c\<rparr>) = Inr (gen, w2)"
  shows "draws w2 0 = 42"
proof -
  have "steady 42 (steady_world\<lparr>clock := c\<rparr>)" by (simp add: steady_def steady_world_def)
  with keeps_generate_records [of 42 b idx "[]"] assms have "steady 42 w2"
    unfolding keeps_steady_def by blast
  then show ?thesis by (simp add: steady_def)
qed

text \<open>
  Claim C8. Every element after the first \<open>n\<close> of the final list is an object of its
  own, different from every element before it, and holds the same fields as one of the
  first \<open>n\<close> records. Round by round, the first starting in the world the first
  loop left, each later one in the world the previous one left, and the last leaving the
  final world: the element appended at position \<open>j\<close> is the \<open>dict.copy\<close> of what
  \<open>random.choice\<close> returned for the list of the \<open>j\<close> elements before it, which
  is the element at the index that the raw draw of the round gives modulo \<open>j\<close>, and at
  the end it holds what that element holds. Every element of a list can be the source: for
  each index of a list there is a raw draw with which one round appends a copy of the
  element at that index. The distribution of the draws is not modelled.
\<close>

theorem duplicates_are_copies:
  "(\<forall>ts w'. generate_transactions_for n w = Inr (ts, w') \<longrightarrow>
     (\<exists>gen w2 vl.
        generate_records (clock w 0) [1..int n] [] (w\<lparr>clock := (\<lambda>m. clock w (Suc m))\<rparr>) =
          Inr (gen, w2) \<and>
        take n ts = gen \<and> length vl = length ts - n \<and> last (w2 # vl) = w' \<and>
        (\<forall>j. n \<le> j \<and> j < length ts \<longrightarrow>
           ts ! j \<notin> set (take j ts) \<and> (\<exists>k < n. objects w' (ts ! j) = objects w' (ts ! k)) \<and>
           (\<exists>c u. choice (take j ts) ((w2 # vl) ! (j - n)) = Inr (c, u) \<and>
                  c = ts ! (draws ((w2 # vl) ! (j - n)) 0 mod j) \<and>
                  dict_copy c u = Inr (ts ! j, vl ! (j - n)) \<and>
                  objects w' (ts ! j) = objects w' c)))) \<and>
   (\<forall>xs i v. i < length xs \<longrightarrow>
      (\<exists>w'. add_duplicates 1 xs (v\<lparr>draws := (\<lambda>m. i)\<rparr>) = Inr (xs @ [next_id v], w') \<and>
            objects w' (next_id v) = objects v (xs ! i))) \<and>
   (lookback_ok (clock w 0) 90 \<and> lookahead_ok (clock w 0) \<longrightarrow>
      (\<exists>ts w'. generate_transactions_for n w = Inr (ts, w')))"
proof (intro conjI)
  show "\<forall>ts w'. generate_transactions_for n w = Inr (ts, w') \<longrightarrow>
     (\<exists>gen w2 vl.
        generate_records (clock w 0) [1..int n] [] (w\<lparr>clock := (\<lambda>m. clock w (Suc m))\<rparr>) =
          Inr (gen, w2) \<and>
        take n ts = gen \<and> length vl = length ts - n \<and> last (w2 # vl) = w' \<and>
        (\<forall>j. n \<le> j \<and> j < length ts \<longrightarrow>
           ts ! j \<notin> set (take j ts) \<and> (\<exists>k < n. objects w' (ts ! j) = objects w' (ts ! k)) \<and>
           (\<exists>c u. choice (take j ts) ((w2 # vl) ! (j - n)) = Inr (c, u) \<and>
                  c = ts ! (draws ((w2 # vl) ! (j - n)) 0 mod j) \<and>
                  dict_copy c u = Inr (ts ! j, vl ! (j - n)) \<and>
                  objects w' (ts ! j) = objects w' c)))"
  proof (intro allI impI)
    fix ts w'
    assume r: "generate_transactions_for n w = Inr (ts, w')"
    from dataset_sources [OF r] obtain gen w2 vl where
      g: "generate_records (clock w 0) [1..int n] [] (w\<lparr>clock := (\<lambda>m. clock w (Suc m))\<rparr>) =
            Inr (gen, w2)"
         "take n ts = gen" "length vl = length ts - n" "last (w2 # vl) = w'" and
      s: "\<forall>j. n \<le> j \<and> j < length ts \<longrightarrow>
           (\<exists>c u. choice (take j ts) ((w2 # vl) ! (j - n)) = Inr (c, u) \<and>
                  c = ts ! (draws ((w2 # vl) ! (j - n)) 0 mod j) \<and>
                  dict_copy c u = Inr (ts ! j, vl ! (j - n)) \<and>
                  objects w' (ts ! j) = objects w' c)"
      by blast
    from dataset_duplicates [rule_format, OF r] s
    have "\<forall>j. n \<le> j \<and> j < length ts \<longrightarrow>
           ts ! j \<notin> set (take j ts) \<and> (\<exists>k < n. objects w' (ts ! j) = objects w' (ts ! k)) \<and>
           (\<exists>c u. choice (take j ts) ((w2 # vl) ! (j - n)) = Inr (c, u) \<and>
                  c = ts ! (draws ((w2 # vl) ! (j - n)) 0 mod j) \<and>
                  dict_copy c u = Inr (ts ! j, vl ! (j - n)) \<and>
                  objects w' (ts ! j) = objects w' c)"
      by simp
    with g show "\<exists>gen w2 vl.
        generate_records (clock w 0) [1..int n] [] (w\<lparr>clock := (\<lambda>m. clock w (Suc m))\<rparr>) =
          Inr (gen, w2) \<and>
        take n ts = gen \<and> length vl = length ts - n \<and> last (w2 # vl) = w' \<and>
        (\<forall>j. n \<le> j \<and> j < length ts \<longrightarrow>
           ts ! j \<notin> set (take j ts) \<and> (\<exists>k < n. objects w' (ts ! j) = objects w' (ts ! k)) \<and>
           (\<exists>c u. choice (take j ts) ((w2 # vl) ! (j - n)) = Inr (c, u) \<and>
                  c = ts ! (draws ((w2 # vl) ! (j - n)) 0 mod j) \<and>
                  dict_copy c u = Inr (ts ! j, vl ! (j - n)) \<and>
                  objects w' (ts ! j) = objects w' c))"
      by blast
  qed
  show "\<forall>xs i v. i < length xs \<longrightarrow>
      (\<exists>w'. add_duplicates 1 xs (v\<lparr>draws := (\<lambda>m. i)\<rparr>) = Inr (xs @ [next_id v], w') \<and>
            objects w' (next_id v) = objects v (xs ! i))"
    by (intro allI impI add_duplicates_reach)
  show "lookback_ok (clock w 0) 90 \<and> lookahead_ok (clock w 0) \<longrightarrow>
      (\<exists>ts w'. generate_transactions_for n w = Inr (ts, w'))"
    by (simp add: generate_transactions_total)
qed

theorem duplicates_are_copies_witness:
  "(\<exists>ts w'. generate_transactions_for 100 steady_world = Inr (ts, w') \<and>
     (100::nat) \<le> 100 \<and> 100 < length ts \<and> ts ! 100 \<notin> set (take 100 ts) \<and>
     (\<exists>k < 100. objects w' (ts ! 100) = objects w' (ts ! k)) \<and>
     ts ! 42 \<in> set (take 100 ts) \<and> ts ! 42 \<noteq> ts ! 0 \<and>
     objects w' (ts ! 100) = objects w' (ts ! 42)) \<and>
   (2::nat) < length [0, 1, 2 :: nat] \<and>
   (\<exists>w'. add_duplicates 1 [0, 1, 2] (copy_world\<lparr>draws := (\<lambda>m. 2)\<rparr>) = Inr ([0, 1, 2, 3], w') \<and>
          objects w' 3 = [(''amount'', PFloat 2)] \<and> objects w' 3 \<noteq> objects w' 0)"
proof -
  note t = duplicates_are_copies [of 100 steady_world]
  note run = t [THEN conjunct1, rule_format]
  note reach = t [THEN conjunct2, THEN conjunct1, rule_format, of 2 "[0, 1, 2]" copy_world]
  note total = t [THEN conjunct2, THEN conjunct2, rule_format]
  from total steady_world_clock obtain ts w' where
    r: "generate_transactions_for 100 steady_world = Inr (ts, w')" by blast
  from dataset_structure [OF r] have l: "length ts = 102" and dt: "distinct ts" by auto
  from run [OF r] obtain gen w2 vl where
    g: "generate_records (clock steady_world 0) [1..int 100] []
          (steady_world\<lparr>clock := (\<lambda>m. clock steady_world (Suc m))\<rparr>) = Inr (gen, w2)" and
    s: "\<forall>j. 100 \<le> j \<and> j < length ts \<longrightarrow>
           ts ! j \<notin> set (take j ts) \<and> (\<exists>k < 100. objects w' (ts ! j) = objects w' (ts ! k)) \<and>
           (\<exists>c u. choice (take j ts) ((w2 # vl) ! (j - 100)) = Inr (c, u) \<and>
                  c = ts ! (draws ((w2 # vl) ! (j - 100)) 0 mod j) \<and>
                  dict_copy c u = Inr (ts ! j, vl ! (j - 100)) \<and>
                  objects w' (ts ! j) = objects w' c)"
    by blast
  from l have j: "(100::nat) \<le> 100 \<and> 100 < length ts" by simp
  from s [rule_format, OF j] obtain c where
    f: "ts ! 100 \<notin> set (take 100 ts)" "\<exists>k < 100. objects w' (ts ! 100) = objects w' (ts ! k)" and
    c: "c = ts ! (draws ((w2 # vl) ! (100 - 100)) 0 mod 100)" "objects w' (ts ! 100) = objects w' c"
    by blast
  from c(1) steady_world_records [OF g] have "c = ts ! 42" by simp
  with c(2) have o: "objects w' (ts ! 100) = objects w' (ts ! 42)" by simp
  from l have m: "ts ! 42 \<in> set (take 100 ts)" by (simp add: in_set_conv_nth) (rule exI [of _ 42], simp)
  from dt l have n0: "ts ! 42 \<noteq> ts ! 0" by (simp add: nth_eq_iff_index_eq)
  from r j f o m n0 have 1: "\<exists>ts w'. generate_transactions_for 100 steady_world = Inr (ts, w') \<and>
     (100::nat) \<le> 100 \<and> 100 < length ts \<and> ts ! 100 \<notin> set (take 100 ts) \<and>
     (\<exists>k < 100. objects w' (ts ! 100) = objects w' (ts ! k)) \<and>
     ts ! 42 \<in> set (take 100 ts) \<and> ts ! 42 \<noteq> ts ! 0 \<and>
     objects w' (ts ! 100) = objects w' (ts ! 42)"
    by blast
  have 2: "(2::nat) < length [0, 1, 2 :: nat]" by simp
  from reach [OF 2] obtain w' where
    a: "add_duplicates 1 [0, 1, 2] (copy_world\<lparr>draws := (\<lambda>m. 2)\<rparr>) =
          Inr ([0, 1, 2] @ [next_id copy_world], w')" and
    b: "objects w' (next_id copy_world) = objects copy_world ([0, 1, 2] ! 2)"
    by blast
  from a have a': "add_duplicates 1 [0, 1, 2] (copy_world\<lparr>draws := (\<lambda>m. 2)\<rparr>) =
          Inr ([0, 1, 2, 3], w')"
    by (simp add: copy_world_def)
  from b have b': "objects w' 3 = [(''amount'', PFloat 2)]" by (simp add: copy_world_def)
  from a have "objects w' 0 = [(''amount'', PFloat 0)]"
    by (simp add: and_then_def choice_run dict_copy_def new_dict_def ret_def copy_world_def)
       (auto simp: copy_world_def)
  with b' have "objects w' 3 \<noteq> objects w' 0" by simp
  with a' b' have 3: "\<exists>w'. add_duplicates 1 [0, 1, 2] (copy_world\<lparr>draws := (\<lambda>m. 2)\<rparr>) =
            Inr ([0, 1, 2, 3], w') \<and>
          objects w' 3 = [(''amount'', PFloat 2)] \<and> objects w' 3 \<noteq> objects w' 0"
    by blast
  from 1 2 3 show ?thesis by (intro conjI)
qed

text \<open>
  Claim C9. The first \<open>n\<close> elements of the final list are the list that the first
  loop built. Element \<open>k\<close> is what the record factory returned for index \<open>k + 1\<close>,
  each call starting in the world that the previous one left, and it holds at the end what
  it held when the factory returned it. The second loop changes no object that existed
  before it.
\<close>

theorem generated_records_frame:
  "(\<forall>ts w'. generate_transactions_for n w = Inr (ts, w') \<longrightarrow>
     (\<exists>gen w2 wl.
        generate_records (clock w 0) [1..int n] [] (w\<lparr>clock := (\<lambda>m. clock w (Suc m))\<rparr>) =
          Inr (gen, w2) \<and>
        take n ts = gen \<and> length gen = n \<and> length wl = n \<and>
        (\<forall>k < n. record_factory (int k + 1) (clock w 0)
                     ((w\<lparr>clock := (\<lambda>m. clock w (Suc m))\<rparr> # wl) ! k) = Inr (ts ! k, wl ! k) \<and>
                  objects w' (ts ! k) = objects (wl ! k) (ts ! k)) \<and>
        (\<forall>b < next_id w2. objects w' b = objects w2 b))) \<and>
   (lookback_ok (clock w 0) 90 \<and> lookahead_ok (clock w 0) \<longrightarrow>
      (\<exists>ts w'. generate_transactions_for n w = Inr (ts, w')))"
proof (rule conjI)
  show "\<forall>ts w'. generate_transactions_for n w = Inr (ts, w') \<longrightarrow>
     (\<exists>gen w2 wl.
        generate_records (clock w 0) [1..int n] [] (w\<lparr>clock := (\<lambda>m. clock w (Suc m))\<rparr>) =
          Inr (gen, w2) \<and>
        take n ts = gen \<and> length gen = n \<and> length wl = n \<and>
        (\<forall>k < n. record_factory (int k + 1) (clock w 0)
                     ((w\<lparr>clock := (\<lambda>m. clock w (Suc m))\<rparr> # wl) ! k) = Inr (ts ! k, wl ! k) \<and>
                  objects w' (ts ! k) = objects (wl ! k) (ts ! k)) \<and>
        (\<forall>b < next_id w2. objects w' b = objects w2 b))"
    by (rule dataset_frame)
  show "lookback_ok (clock w 0) 90 \<and> lookahead_ok (clock w 0) \<longrightarrow>
      (\<exists>ts w'. generate_transactions_for n w = Inr (ts, w'))"
    by (simp add: generate_transactions_total)
qed

theorem generated_records_frame_witness:
  "\<exists>ts w' gen w2. generate_transactions_for 100 example_world = Inr (ts, w') \<and>
     generate_records (clock example_world 0) [1..int 100] []
       (example_world\<lparr>clock := (\<lambda>m. clock example_world (Suc m))\<rparr>) = Inr (gen, w2) \<and>
     take 100 ts = gen \<and> length gen = 100"
proof -
  note t = generated_records_frame [of 100 example_world]
  from t example_clock_ok obtain ts w' where
    r: "generate_transactions_for 100 example_world = Inr (ts, w')" by blast
  with t [THEN conjunct1] show ?thesis by blast
qed

lemma negative_kind:
  "choice INVALID_TYPES negative_world =
     Inr (''negative_amount'', negative_world\<lparr>draws := (\<lambda>n. draws negative_world (Suc n))\<rparr>)"
  by (simp add: choice_run enumerations_nonempty)
     (simp add: INVALID_TYPES_def negative_world_def)

text \<open>
  Claim C10. The amount of every record of the final list is between 10 and 100000 in
  absolute value, and the amount of a record with the negative-amount fault is at most
  -10.
\<close>

theorem amount_magnitude_bound:
  "(\<forall>ts w'. generate_transactions_for n w = Inr (ts, w') \<longrightarrow>
      (\<forall>a \<in> set ts. amount_magnitude_ok (objects w' a))) \<and>
   (\<forall>w0 a v'. choice INVALID_TYPES v = Inr (''negative_amount'', w0) \<and>
       create_invalid_transaction i base_date v = Inr (a, v') \<longrightarrow>
       (\<exists>x. float_field (objects v' a) ''amount'' = Some x \<and> x \<le> - 10)) \<and>
   (lookback_ok (clock w 0) 90 \<and> lookahead_ok (clock w 0) \<longrightarrow>
      (\<exists>ts w'. generate_transactions_for n w = Inr (ts, w')))"
proof (intro conjI)
  show "\<forall>ts w'. generate_transactions_for n w = Inr (ts, w') \<longrightarrow>
      (\<forall>a \<in> set ts. amount_magnitude_ok (objects w' a))"
  proof (intro allI impI ballI)
  fix ts w' a
  assume r: "generate_transactions_for n w = Inr (ts, w')" and a: "a \<in> set ts"
  from dataset_structure [OF r] obtain gen dups w2 wl where
    all: "generate_records (clock w 0) [1..int n] [] (w\<lparr>clock := (\<lambda>m. clock w (Suc m))\<rparr>) = Inr (gen, w2) \<and>
    ts = gen @ dups \<and> length gen = n \<and> length dups = n div 50 \<and> length wl = n \<and> distinct ts \<and>
    (\<forall>b < next_id w2. objects w' b = objects w2 b) \<and>
    (\<forall>a \<in> set gen. a < next_id w2) \<and>
    (\<forall>k < n. record_factory (int k + 1) (clock w 0)
                 ((w\<lparr>clock := (\<lambda>m. clock w (Suc m))\<rparr> # wl) ! k) = Inr (gen ! k, wl ! k) \<and>
              objects w2 (gen ! k) = objects (wl ! k) (gen ! k) \<and>
              amount_magnitude_ok (objects w2 (gen ! k))) \<and>
    (\<forall>a \<in> set dups. next_id w2 \<le> a \<and> (\<exists>c \<in> set gen. objects w' a = objects w' c))"
    by blast
  from all have s: "ts = gen @ dups" "length gen = n" by simp_all
  from all have fr: "\<forall>b < next_id w2. objects w' b = objects w2 b" by (elim conjE)
  from all have lv: "\<forall>a \<in> set gen. a < next_id w2" by (elim conjE)
  from all have tr: "\<forall>k < n. amount_magnitude_ok (objects w2 (gen ! k))" by blast
  from all have d: "\<forall>a \<in> set dups. \<exists>c \<in> set gen. objects w' a = objects w' c" by blast
  have gen_ok: "amount_magnitude_ok (objects w' c)" if "c \<in> set gen" for c
  proof -
    from that obtain k where k: "k < length gen" "gen ! k = c" by (auto simp: in_set_conv_nth)
    from k(1) s(2) have "k < n" by simp
    with tr have "amount_magnitude_ok (objects w2 (gen ! k))" by blast
    with k(2) have "amount_magnitude_ok (objects w2 c)" by simp
    moreover from that lv fr have "objects w' c = objects w2 c" by blast
    ultimately show ?thesis by simp
  qed
  from a s(1) consider "a \<in> set gen" | "a \<in> set dups" by auto
  then show "amount_magnitude_ok (objects w' a)"
  proof cases
    case 1
    then show ?thesis by (rule gen_ok)
  next
    case 2
    with d obtain c where "c \<in> set gen" "objects w' a = objects w' c" by blast
    with gen_ok [of c] show ?thesis by simp
  qed
  qed
next
  show "\<forall>w0 a v'. choice INVALID_TYPES v = Inr (''negative_amount'', w0) \<and>
       create_invalid_transaction i base_date v = Inr (a, v') \<longrightarrow>
       (\<exists>x. float_field (objects v' a) ''amount'' = Some x \<and> x \<le> - 10)"
  proof (intro allI impI)
  fix w0 a v'
  assume "choice INVALID_TYPES v = Inr (''negative_amount'', w0) \<and>
       create_invalid_transaction i base_date v = Inr (a, v')"
  then have c: "choice INVALID_TYPES v = Inr (''negative_amount'', w0)"
    and r: "create_invalid_transaction i base_date v = Inr (a, v')" by simp_all
  from create_invalid_post(4) [OF c r]
  show "\<exists>x. float_field (objects v' a) ''amount'' = Some x \<and> x \<le> - 10" by simp
  qed
next
  show "lookback_ok (clock w 0) 90 \<and> lookahead_ok (clock w 0) \<longrightarrow>
      (\<exists>ts w'. generate_transactions_for n w = Inr (ts, w'))"
    by (simp add: generate_transactions_total)
qed


theorem amount_magnitude_bound_witness:
  "(\<exists>ts w'. generate_transactions_for 100 example_world = Inr (ts, w') \<and>
      ts ! 0 \<in> set ts \<and> amount_magnitude_ok (objects w' (ts ! 0)) \<and>
      ts ! 101 \<in> set ts \<and> amount_magnitude_ok (objects w' (ts ! 101))) \<and>
   outcome (choice INVALID_TYPES negative_world) = Inr ''negative_amount'' \<and>
   (\<exists>a v' x. create_invalid_transaction 1 63929390400000000 negative_world = Inr (a, v') \<and>
      float_field (objects v' a) ''amount'' = Some x \<and> x \<le> - 10)"
proof -
  note u = amount_magnitude_bound [of 100 example_world negative_world 1 63929390400000000]
  from u example_clock_ok obtain ts w' where
    r: "generate_transactions_for 100 example_world = Inr (ts, w')" by blast
  from dataset_structure [OF r] have l: "length ts = 102" by auto
  then have m: "ts ! 0 \<in> set ts" "ts ! 101 \<in> set ts" by simp_all
  note t = u [THEN conjunct1]
  from t r have "\<forall>a \<in> set ts. amount_magnitude_ok (objects w' a)" by blast
  with m have "amount_magnitude_ok (objects w' (ts ! 0))" "amount_magnitude_ok (objects w' (ts ! 101))"
    by blast+
  with r m have 1: "\<exists>ts w'. generate_transactions_for 100 example_world = Inr (ts, w') \<and>
      ts ! 0 \<in> set ts \<and> amount_magnitude_ok (objects w' (ts ! 0)) \<and>
      ts ! 101 \<in> set ts \<and> amount_magnitude_ok (objects w' (ts ! 101))" by blast
  from create_invalid_total [OF example_lookback example_lookahead, of 1 negative_world]
  obtain a v' where c: "create_invalid_transaction 1 63929390400000000 negative_world = Inr (a, v')"
    by blast
  with u [THEN conjunct2, THEN conjunct1] negative_kind
  obtain x where "float_field (objects v' a) ''amount'' = Some x" "x \<le> - 10" by blast
  with c have 2: "\<exists>a v' x. create_invalid_transaction 1 63929390400000000 negative_world = Inr (a, v') \<and>
      float_field (objects v' a) ''amount'' = Some x \<and> x \<le> - 10" by blast
  from 1 2 negative_kind show ?thesis by (simp add: outcome_def)
qed

end
